theory Spec2Isabelle
  imports Main
begin

section \<open>Python values and errors\<close>

text \<open>
  Every exception the modelled code can raise is a value. \<open>Exception\<close> is the plain
  \<^verbatim>\<open>raise Exception(...)\<close> of the source; the others are raised by the interpreter
  (a missing dictionary key, an empty list indexed at 0, arithmetic or \<^verbatim>\<open>join\<close> on
  the wrong type, an attribute or a name that is not bound).
\<close>

datatype error = KeyError | IndexError | TypeError | AttributeError | NameError | Exception

text \<open>
  Objects of the classes \<^verbatim>\<open>Ballot\<close>, \<^verbatim>\<open>Voter\<close>, \<^verbatim>\<open>Choice\<close>, \<^verbatim>\<open>Transaction\<close>
  and \<^verbatim>\<open>Block\<close> define neither \<^verbatim>\<open>__eq__\<close> nor \<^verbatim>\<open>__hash__\<close> (\<^verbatim>\<open>Block\<close> defines
  \<^verbatim>\<open>__eq__\<close> only), so dictionaries and \<^verbatim>\<open>is\<close> compare them by identity. An object
  identity is a number; two objects of one class are the same object iff their
  identities agree.
\<close>

type_synonym oid = nat

subsection \<open>constants.py\<close>

definition NOT_VOTED :: string where "NOT_VOTED = ''not voted''"
definition VOTED :: string where "VOTED = ''voted''"
definition CREATED :: string where "CREATED = ''ballot_created''"
definition ISSUED :: string where "ISSUED = ''ballot_issued''"
definition USED :: string where "USED = ''ballot_used''"

subsection \<open>Strings\<close>

text \<open>\<^verbatim>\<open>sep.join(xs)\<close> on a list of strings.\<close>

fun join :: "string \<Rightarrow> string list \<Rightarrow> string" where
  "join sep [] = []"
| "join sep [x] = x"
| "join sep (x # y # ys) = x @ sep @ join sep (y # ys)"

text \<open>\<^verbatim>\<open>str\<close> of a bool and of an int (decimal, with a minus sign).\<close>

definition str_bool :: "bool \<Rightarrow> string" where
  "str_bool b = (if b then ''True'' else ''False'')"

definition digit_char :: "nat \<Rightarrow> char" where
  "digit_char d = ''0123456789'' ! d"

fun str_nat :: "nat \<Rightarrow> string" where
  "str_nat n = (if n < 10 then [digit_char n] else str_nat (n div 10) @ [digit_char (n mod 10)])"

declare str_nat.simps [simp del]

definition str_int :: "int \<Rightarrow> string" where
  "str_int i = (if i < 0 then CHR ''-'' # str_nat (nat (- i)) else str_nat (nat i))"

section \<open>election.py\<close>

record Voter =
  voter_oid :: oid
  name :: string
  voter_id :: string
  voter_state :: string

record Choice =
  choice_oid :: oid
  choice_description :: string
  chosen :: bool

record BallotItem =
  title :: string
  item_description :: string
  max_choices :: int
  choices :: "Choice list"

record Ballot =
  ballot_oid :: oid
  ballot_id :: string
  election :: string
  items :: "BallotItem list"

text \<open>
  The keyword arguments of the \<^verbatim>\<open>get_signature_contents\<close> family: the only keyword any
  caller passes is \<^verbatim>\<open>include_chosen\<close>; \<open>None\<close> is "not passed", so that
  \<^verbatim>\<open>Choice.get_signature_contents\<close> takes its default \<^verbatim>\<open>True\<close>.
\<close>

type_synonym signature_kwargs = "bool option"

definition Voter_get_signature_contents :: "Voter \<Rightarrow> signature_kwargs \<Rightarrow> string" where
  "Voter_get_signature_contents v kwargs = voter_id v"

definition Choice_get_signature_contents :: "Choice \<Rightarrow> signature_kwargs \<Rightarrow> string" where
  "Choice_get_signature_contents c kwargs =
     (let include_chosen = (case kwargs of None \<Rightarrow> True | Some b \<Rightarrow> b);
          content_list = [choice_description c];
          content_list = (if include_chosen then content_list @ [str_bool (chosen c)]
                          else content_list)
      in join '':'' content_list)"

definition BallotItem_get_signature_contents :: "BallotItem \<Rightarrow> signature_kwargs \<Rightarrow> string" where
  "BallotItem_get_signature_contents i kwargs =
     join '':'' ([title i, item_description i, str_int (max_choices i)]
                 @ map (\<lambda>c. Choice_get_signature_contents c kwargs) (choices i))"

definition Ballot_get_signature_contents :: "Ballot \<Rightarrow> signature_kwargs \<Rightarrow> string" where
  "Ballot_get_signature_contents b kwargs =
     join '':'' ([ballot_id b, election b]
                 @ map (\<lambda>i. BallotItem_get_signature_contents i kwargs) (items b))"

text \<open>\<^verbatim>\<open>Ballot.get_selected_choices\<close>: the chosen choices, item by item, in order.\<close>

definition get_selected_choices :: "Ballot \<Rightarrow> Choice list" where
  "get_selected_choices b = concat (map (\<lambda>i. filter chosen (choices i)) (items b))"

section \<open>base.py: transactions\<close>

text \<open>
  The signature primitive of \<^verbatim>\<open>utils.sign\<close> and \<^verbatim>\<open>utils.verify_signature\<close> is
  RSA-PSS from an external library. It is modelled as an ideal signature: a signature
  records the signing key and the exact message, and verifies against the public key of
  that key and that message only.
\<close>

datatype private_key_t = PrivateKey nat
datatype public_key_t = PublicKey nat
datatype signature_t = Signature nat string

fun sign :: "string \<Rightarrow> private_key_t \<Rightarrow> signature_t" where
  "sign message (PrivateKey k) = Signature k message"

fun verify_signature :: "string \<Rightarrow> signature_t \<Rightarrow> public_key_t \<Rightarrow> bool" where
  "verify_signature message (Signature k m) (PublicKey k') = (k = k' \<and> m = message)"

text \<open>
  A \<^verbatim>\<open>datetime\<close>, and \<^verbatim>\<open>strftime("%Y-%m-%d %H:%M")\<close> on it: the C library's \<^verbatim>\<open>%Y\<close> writes
  the year with the digits it has and no padding, the other fields with two digits.
\<close>

record datetime =
  year :: nat
  month :: nat
  day :: nat
  hour :: nat
  minute :: nat
  second :: nat

definition zero_pad :: "nat \<Rightarrow> string \<Rightarrow> string" where
  "zero_pad w s = replicate (w - length s) (CHR ''0'') @ s"

definition get_formatted_time_str :: "datetime \<Rightarrow> string" where
  "get_formatted_time_str d =
     str_nat (year d) @ ''-'' @ zero_pad 2 (str_nat (month d)) @ ''-''
     @ zero_pad 2 (str_nat (day d)) @ '' '' @ zero_pad 2 (str_nat (hour d)) @ '':''
     @ zero_pad 2 (str_nat (minute d))"

text \<open>The part of a \<^verbatim>\<open>Node\<close> a transaction uses: its key pair.\<close>

record node_keys =
  public_key :: public_key_t
  private_key :: private_key_t

definition sign_message :: "'a node_keys_scheme \<Rightarrow> string \<Rightarrow> signature_t" where
  "sign_message node message = sign message (private_key node)"

text \<open>
  A transaction object. \<open>tx_oid\<close> is its identity. \<open>time\<close> and \<open>signature\<close> are
  \<open>None\<close> while the attribute is not set (\<open>time\<close> on an untimestamped transaction,
  \<open>signature\<close> inside the constructor). The content is a \<^verbatim>\<open>Ballot\<close> for a
  \<^verbatim>\<open>VoteTransaction\<close> and a \<^verbatim>\<open>Voter\<close> for a \<^verbatim>\<open>VoterTransaction\<close>.
\<close>

record 'c transaction =
  tx_oid :: oid
  content :: 'c
  tx_kwargs :: signature_kwargs
  previous_state :: string
  new_state :: string
  node :: node_keys
  timestamped :: bool
  time :: "datetime option"
  signature :: "signature_t option"

type_synonym VoteTransaction = "Ballot transaction"
type_synonym VoterTransaction = "Voter transaction"

definition VoteTransaction_allowed_states :: "string list" where
  "VoteTransaction_allowed_states = [CREATED, ISSUED, USED]"

definition VoterTransaction_allowed_states :: "string list" where
  "VoterTransaction_allowed_states = [NOT_VOTED, VOTED]"

text \<open>\<^verbatim>\<open>Transaction.get_time_str\<close>: Python's \<^verbatim>\<open>None\<close> for an untimestamped transaction.\<close>

definition get_time_str :: "'c transaction \<Rightarrow> error + string option" where
  "get_time_str self =
     (if timestamped self then
        (case time self of
           None \<Rightarrow> Inl AttributeError
         | Some d \<Rightarrow> Inr (Some (get_formatted_time_str d)))
      else Inr None)"

text \<open>
  \<^verbatim>\<open>Transaction.get_signature_contents\<close>. The first argument is the content class's own
  \<^verbatim>\<open>get_signature_contents\<close>, which receives the keyword arguments.
\<close>

definition Transaction_get_signature_contents ::
  "('c \<Rightarrow> signature_kwargs \<Rightarrow> string) \<Rightarrow> 'c transaction \<Rightarrow> signature_kwargs \<Rightarrow> error + string" where
  "Transaction_get_signature_contents content_contents self kwargs =
     (let str_list = [content_contents (content self) kwargs, previous_state self, new_state self]
      in if timestamped self then
           (case get_time_str self of
              Inl e \<Rightarrow> Inl e
            | Inr None \<Rightarrow> Inl TypeError
            | Inr (Some s) \<Rightarrow> Inr (join '':'' (str_list @ [s])))
         else Inr (join '':'' str_list))"

text \<open>\<^verbatim>\<open>Transaction.verify_transaction\<close>: the payload is recomputed with the stored keywords.\<close>

definition verify_transaction ::
  "('c \<Rightarrow> signature_kwargs \<Rightarrow> string) \<Rightarrow> 'c transaction \<Rightarrow> error + bool" where
  "verify_transaction content_contents transaction =
     (case Transaction_get_signature_contents content_contents transaction (tx_kwargs transaction) of
        Inl e \<Rightarrow> Inl e
      | Inr message \<Rightarrow>
          (case signature transaction of
             None \<Rightarrow> Inl AttributeError
           | Some s \<Rightarrow> Inr (verify_signature message s (public_key (node transaction)))))"

text \<open>
  \<^verbatim>\<open>Transaction.__init__\<close>. \<open>as_content_class\<close> is the test
  \<^verbatim>\<open>type(content) is not self.content_class\<close>; \<open>new_oid\<close> is the identity of the new
  object and \<open>now\<close> the value of \<^verbatim>\<open>datetime.datetime.now()\<close>.
\<close>

datatype content_obj = BallotObj Ballot | VoterObj Voter

definition Transaction_init ::
  "('c \<Rightarrow> signature_kwargs \<Rightarrow> string) \<Rightarrow> string list \<Rightarrow> (content_obj \<Rightarrow> 'c option) \<Rightarrow>
   oid \<Rightarrow> datetime \<Rightarrow> content_obj \<Rightarrow> node_keys \<Rightarrow> string \<Rightarrow> string \<Rightarrow> bool \<Rightarrow>
   signature_kwargs \<Rightarrow> error + 'c transaction" where
  "Transaction_init content_contents allowed_states as_content_class new_oid now
     content_arg node_arg previous_state_arg new_state_arg timestamped_arg kwargs =
     (case as_content_class content_arg of
        None \<Rightarrow> Inl Exception
      | Some c \<Rightarrow>
          if previous_state_arg \<in> set allowed_states \<and> new_state_arg \<in> set allowed_states then
            (let self = \<lparr>tx_oid = new_oid, content = c, tx_kwargs = kwargs,
                         previous_state = previous_state_arg, new_state = new_state_arg,
                         node = node_arg, timestamped = timestamped_arg,
                         time = (if timestamped_arg then Some now else None),
                         signature = None\<rparr>
             in case Transaction_get_signature_contents content_contents self kwargs of
                  Inl e \<Rightarrow> Inl e
                | Inr message \<Rightarrow> Inr (self\<lparr>signature := Some (sign_message node_arg message)\<rparr>))
          else Inl Exception)"

definition as_Ballot :: "content_obj \<Rightarrow> Ballot option" where
  "as_Ballot c = (case c of BallotObj b \<Rightarrow> Some b | VoterObj v \<Rightarrow> None)"

definition as_Voter :: "content_obj \<Rightarrow> Voter option" where
  "as_Voter c = (case c of VoterObj v \<Rightarrow> Some v | BallotObj b \<Rightarrow> None)"

definition VoteTransaction_init ::
  "oid \<Rightarrow> datetime \<Rightarrow> content_obj \<Rightarrow> node_keys \<Rightarrow> string \<Rightarrow> string \<Rightarrow> bool \<Rightarrow>
   signature_kwargs \<Rightarrow> error + VoteTransaction" where
  "VoteTransaction_init =
     Transaction_init Ballot_get_signature_contents VoteTransaction_allowed_states as_Ballot"

definition VoterTransaction_init ::
  "oid \<Rightarrow> datetime \<Rightarrow> content_obj \<Rightarrow> node_keys \<Rightarrow> string \<Rightarrow> string \<Rightarrow> bool \<Rightarrow>
   signature_kwargs \<Rightarrow> error + VoterTransaction" where
  "VoterTransaction_init =
     Transaction_init Voter_get_signature_contents VoterTransaction_allowed_states as_Voter"

text \<open>\<^verbatim>\<open>VoteTransaction.add_timestamp\<close>, always called with a time.\<close>

definition add_timestamp :: "VoteTransaction \<Rightarrow> datetime \<Rightarrow> VoteTransaction" where
  "add_timestamp self t = self\<lparr>time := Some t, timestamped := True\<rparr>"

text \<open>
  \<^verbatim>\<open>VoteTransaction.timestamp_and_sign_transactions\<close>: every transaction gets the one
  \<open>now\<close>, and a new signature over \<^verbatim>\<open>tx.get_signature_contents()\<close>, called with no
  keyword argument.
\<close>

definition timestamp_and_sign :: "datetime \<Rightarrow> VoteTransaction \<Rightarrow> error + VoteTransaction" where
  "timestamp_and_sign now tx =
     (let tx = add_timestamp tx now
      in case Transaction_get_signature_contents Ballot_get_signature_contents tx None of
           Inl e \<Rightarrow> Inl e
         | Inr message \<Rightarrow> Inr (tx\<lparr>signature := Some (sign_message (node tx) message)\<rparr>))"

fun timestamp_and_sign_transactions ::
  "datetime \<Rightarrow> VoteTransaction list \<Rightarrow> error + VoteTransaction list" where
  "timestamp_and_sign_transactions now [] = Inr []"
| "timestamp_and_sign_transactions now (tx # txs) =
     (case timestamp_and_sign now tx of
        Inl e \<Rightarrow> Inl e
      | Inr tx' \<Rightarrow>
          (case timestamp_and_sign_transactions now txs of
             Inl e \<Rightarrow> Inl e
           | Inr txs' \<Rightarrow> Inr (tx' # txs')))"

section \<open>base.py: ledgers\<close>

text \<open>
  \<^verbatim>\<open>Ledger.ledger\<close> is one dictionary. Its keys are ballot, voter and choice objects
  (by identity) and state strings; its values are state strings and integer counters.
\<close>

datatype key = BallotKey oid | VoterKey oid | ChoiceKey oid | StrKey string | IntKey int

datatype val = StrVal string | IntVal int

type_synonym pydict = "key \<rightharpoonup> val"

fun key_of_val :: "val \<Rightarrow> key" where
  "key_of_val (StrVal s) = StrKey s"
| "key_of_val (IntVal n) = IntKey n"

record Ledger =
  ledger :: pydict

record VoteLedger = Ledger +
  total_ballots :: nat

record VoterLedger = Ledger +
  registered_voters :: nat

text \<open>
  \<^verbatim>\<open>VoteLedger.__init__\<close>. \<^verbatim>\<open>ballots[0]\<close> raises on an empty list. The candidates are
  the choice objects of the first ballot's items.
\<close>

definition VoteLedger_init :: "Ballot list \<Rightarrow> error + VoteLedger" where
  "VoteLedger_init ballots =
     (let total = length ballots;
          d = fold (\<lambda>ballot d. d(BallotKey (ballot_oid ballot) \<mapsto> StrVal CREATED)) ballots Map.empty;
          d = d(StrKey CREATED \<mapsto> IntVal (int total));
          d = d(StrKey ISSUED \<mapsto> IntVal 0);
          d = d(StrKey USED \<mapsto> IntVal 0)
      in case ballots of
           [] \<Rightarrow> Inl IndexError
         | b0 # _ \<Rightarrow>
             Inr \<lparr>ledger = fold (\<lambda>candidate d. d(ChoiceKey (choice_oid candidate) \<mapsto> IntVal 0))
                             (concat (map choices (items b0))) d,
                  total_ballots = total\<rparr>)"

text \<open>
  Lines 358 to 361 of \<^verbatim>\<open>apply_transactions\<close>: one more vote for each selected choice.
  A choice that is not a key of the dictionary raises \<^verbatim>\<open>KeyError\<close>; the dictionary
  keeps what was written before.
\<close>

fun update_candidate_votes :: "Choice list \<Rightarrow> pydict \<Rightarrow> error option \<times> pydict" where
  "update_candidate_votes [] d = (None, d)"
| "update_candidate_votes (candidate # cs) d =
     (case d (ChoiceKey (choice_oid candidate)) of
        None \<Rightarrow> (Some KeyError, d)
      | Some (StrVal s) \<Rightarrow> (Some TypeError, d)
      | Some (IntVal n) \<Rightarrow>
          update_candidate_votes cs (d(ChoiceKey (choice_oid candidate) \<mapsto> IntVal (n + 1))))"

text \<open>Lines 351 to 361: the update made once the transaction lines up with the ledger.\<close>

definition update_ballot :: "VoteTransaction \<Rightarrow> val \<Rightarrow> pydict \<Rightarrow> error option \<times> pydict" where
  "update_ballot transaction old_state d =
     (let ballot = content transaction;
          tx_new_state = new_state transaction;
          d1 = d(BallotKey (ballot_oid ballot) \<mapsto> StrVal tx_new_state)
      in case d1 (key_of_val old_state) of
           None \<Rightarrow> (Some KeyError, d1)
         | Some (StrVal s) \<Rightarrow> (Some TypeError, d1)
         | Some (IntVal n) \<Rightarrow>
             (let d2 = d1(key_of_val old_state \<mapsto> IntVal (n - 1))
              in case d2 (StrKey tx_new_state) of
                   None \<Rightarrow> (Some KeyError, d2)
                 | Some (StrVal s) \<Rightarrow> (Some TypeError, d2)
                 | Some (IntVal m) \<Rightarrow>
                     update_candidate_votes (get_selected_choices ballot)
                       (d2(StrKey tx_new_state \<mapsto> IntVal (m + 1)))))"

text \<open>
  The attribute \<^verbatim>\<open>_reiterate\<close> lives on the transaction object: \<open>flags\<close> maps a
  transaction's identity to it, \<open>None\<close> while the attribute is not set.
\<close>

type_synonym flags = "oid \<rightharpoonup> bool"

text \<open>One turn of the inner loop of \<^verbatim>\<open>VoteLedger.apply_transactions\<close>.\<close>

definition vote_step ::
  "nat \<Rightarrow> VoteTransaction \<Rightarrow> pydict \<times> flags \<Rightarrow> error option \<times> pydict \<times> flags" where
  "vote_step iteration transaction s =
     (let d = fst s; fl = snd s in
      if iteration = 1 \<and> fl (tx_oid transaction) = None then (Some AttributeError, s)
      else if iteration = 1 \<and> fl (tx_oid transaction) = Some False then (None, s)
      else
        case d (BallotKey (ballot_oid (content transaction))) of
          None \<Rightarrow> (Some KeyError, s)
        | Some old_state \<Rightarrow>
            if StrVal (previous_state transaction) \<noteq> old_state
            then (None, d, fl(tx_oid transaction \<mapsto> True))
            else
              (case update_ballot transaction old_state d of
                 (Some e, d') \<Rightarrow> (Some e, d', fl)
               | (None, d') \<Rightarrow> (None, d', fl(tx_oid transaction \<mapsto> False))))"

text \<open>The inner loop: it stops at the first exception.\<close>

fun vote_pass ::
  "nat \<Rightarrow> VoteTransaction list \<Rightarrow> pydict \<times> flags \<Rightarrow> error option \<times> pydict \<times> flags" where
  "vote_pass iteration [] s = (None, s)"
| "vote_pass iteration (transaction # ts) s =
     (case vote_step iteration transaction s of
        (Some e, s') \<Rightarrow> (Some e, s')
      | (None, s') \<Rightarrow> vote_pass iteration ts s')"

text \<open>The outer loop, \<^verbatim>\<open>for iteration in range(2)\<close>.\<close>

definition vote_passes ::
  "VoteTransaction list \<Rightarrow> pydict \<times> flags \<Rightarrow> error option \<times> pydict \<times> flags" where
  "vote_passes transactions s =
     (case vote_pass 0 transactions s of
        (Some e, s') \<Rightarrow> (Some e, s')
      | (None, s') \<Rightarrow> vote_pass 1 transactions s')"

text \<open>
  \<^verbatim>\<open>VoteLedger.apply_transactions\<close>: the ledger object is updated in place, so the
  result holds the ledger also when an exception ended the call.
\<close>

definition VoteLedger_apply_transactions ::
  "VoteLedger \<Rightarrow> flags \<Rightarrow> VoteTransaction list \<Rightarrow> error option \<times> VoteLedger \<times> flags" where
  "VoteLedger_apply_transactions self fl transactions =
     (case vote_passes transactions (ledger self, fl) of
        (e, d', fl') \<Rightarrow> (e, self\<lparr>ledger := d'\<rparr>, fl'))"

text \<open>\<^verbatim>\<open>VoterLedger.__init__\<close>: the counters first, then one entry per voter.\<close>

definition VoterLedger_init :: "Voter list \<Rightarrow> VoterLedger" where
  "VoterLedger_init voters =
     (let num_voters = length voters;
          d = Map.empty(StrKey NOT_VOTED \<mapsto> IntVal (int num_voters));
          d = d(StrKey VOTED \<mapsto> IntVal 0)
      in \<lparr>ledger = fold (\<lambda>voter d. d(VoterKey (voter_oid voter) \<mapsto> StrVal NOT_VOTED)) voters d,
          registered_voters = num_voters\<rparr>)"

text \<open>One turn of the loop of \<^verbatim>\<open>VoterLedger.apply_transactions\<close>.\<close>

definition voter_step :: "VoterTransaction \<Rightarrow> pydict \<Rightarrow> error option \<times> pydict" where
  "voter_step transaction d =
     (let voter = content transaction;
          tx_previous_state = previous_state transaction;
          tx_new_state = new_state transaction
      in case d (VoterKey (voter_oid voter)) of
           None \<Rightarrow> (Some KeyError, d)
         | Some current_state \<Rightarrow>
             if current_state \<noteq> StrVal tx_previous_state then (None, d)
             else
               (let d1 = d(VoterKey (voter_oid voter) \<mapsto> StrVal tx_new_state)
                in case d1 (StrKey tx_previous_state) of
                     None \<Rightarrow> (Some KeyError, d1)
                   | Some (StrVal s) \<Rightarrow> (Some TypeError, d1)
                   | Some (IntVal n) \<Rightarrow>
                       (let d2 = d1(StrKey tx_previous_state \<mapsto> IntVal (n - 1))
                        in case d2 (StrKey tx_new_state) of
                             None \<Rightarrow> (Some KeyError, d2)
                           | Some (StrVal s) \<Rightarrow> (Some TypeError, d2)
                           | Some (IntVal m) \<Rightarrow>
                               (None, d2(StrKey tx_new_state \<mapsto> IntVal (m + 1))))))"

fun voter_pass :: "VoterTransaction list \<Rightarrow> pydict \<Rightarrow> error option \<times> pydict" where
  "voter_pass [] d = (None, d)"
| "voter_pass (transaction # ts) d =
     (case voter_step transaction d of
        (Some e, d') \<Rightarrow> (Some e, d')
      | (None, d') \<Rightarrow> voter_pass ts d')"

definition VoterLedger_apply_transactions ::
  "VoterLedger \<Rightarrow> VoterTransaction list \<Rightarrow> error option \<times> VoterLedger" where
  "VoterLedger_apply_transactions self transactions =
     (case voter_pass transactions (ledger self) of (e, d') \<Rightarrow> (e, self\<lparr>ledger := d'\<rparr>))"

section \<open>base.py: nodes\<close>

datatype node_class =
  AbstractNode | VotingComputer | VoterComputer | AdversaryVotingComputer
  | AdversaryVoterComputer | BallotGenerator

definition is_VotingComputer :: "node_class \<Rightarrow> bool" where
  "is_VotingComputer c \<longleftrightarrow> c = VotingComputer \<or> c = AdversaryVotingComputer"

type_synonym nid = nat

text \<open>
  A node object. The transaction sets hold transaction objects, that is identities.
  \<open>pending_transactions\<close> exists on voting computers only, \<open>node_mapping\<close> once
  \<^verbatim>\<open>set_node_mapping\<close> has run and \<open>ballot_generator\<close> once \<^verbatim>\<open>set_ballot_generator\<close> has
  (the code reads the generator's public key only); \<open>None\<close> is an attribute that is
  not set. \<open>node_mapping\<close> keeps the dictionary's items in order: the hash of a public
  key and the node it stands for.
\<close>

record Node = node_keys +
  node_class :: node_class
  verified_transactions :: "oid set"
  rejected_transactions :: "oid set"
  pending_transactions :: "oid set option"
  node_mapping :: "(int \<times> nid) list option"
  ballot_generator :: "public_key_t option"

definition Node_init :: "node_class \<Rightarrow> public_key_t \<Rightarrow> private_key_t \<Rightarrow> Node" where
  "Node_init cls pk sk =
     \<lparr>public_key = pk, private_key = sk, node_class = cls,
      verified_transactions = {}, rejected_transactions = {},
      pending_transactions = (if is_VotingComputer cls then Some {} else None),
      node_mapping = None, ballot_generator = None\<rparr>"

text \<open>\<open>hash_key\<close> is Python's \<^verbatim>\<open>hash\<close> on public keys.\<close>

definition set_node_mapping :: "(public_key_t \<Rightarrow> int) \<Rightarrow> Node \<Rightarrow> (int \<times> nid) list \<Rightarrow> Node" where
  "set_node_mapping hash_key self node_dict =
     self\<lparr>node_mapping := Some (filter (\<lambda>kv. fst kv \<noteq> hash_key (public_key self)) node_dict)\<rparr>"

definition set_ballot_generator :: "Node \<Rightarrow> Node \<Rightarrow> Node" where
  "set_ballot_generator self generator = self\<lparr>ballot_generator := Some (public_key generator)\<rparr>"

text \<open>
  \<^verbatim>\<open>Node.is_node_in_network\<close> and its override in \<^verbatim>\<open>VotingComputer\<close>, which also
  accepts the ballot generator's key.
\<close>

definition is_node_in_network :: "(public_key_t \<Rightarrow> int) \<Rightarrow> Node \<Rightarrow> public_key_t \<Rightarrow> error + bool" where
  "is_node_in_network hash_key self pk =
     (case node_mapping self of
        None \<Rightarrow> Inl AttributeError
      | Some m \<Rightarrow>
          if is_VotingComputer (node_class self) then
            (if hash_key pk \<in> fst ` set m then Inr True
             else (case ballot_generator self of
                     None \<Rightarrow> Inl AttributeError
                   | Some g \<Rightarrow> Inr (pk = g)))
          else Inr (hash_key pk \<in> fst ` set m))"

text \<open>\<^verbatim>\<open>Node.add_transaction\<close>. \<^verbatim>\<open>and\<close> verifies the signature only for a trusted issuer.\<close>

definition add_transaction ::
  "(public_key_t \<Rightarrow> int) \<Rightarrow> ('c \<Rightarrow> signature_kwargs \<Rightarrow> string) \<Rightarrow> Node \<Rightarrow> 'c transaction \<Rightarrow>
   error + Node" where
  "add_transaction hash_key content_contents self transaction =
     (case is_node_in_network hash_key self (public_key (node transaction)) of
        Inl e \<Rightarrow> Inl e
      | Inr trusted \<Rightarrow>
          (case (if trusted then verify_transaction content_contents transaction else Inr False) of
             Inl e \<Rightarrow> Inl e
           | Inr valid \<Rightarrow>
               if valid then
                 (if \<not> timestamped transaction then
                    (case pending_transactions self of
                       None \<Rightarrow> Inl AttributeError
                     | Some pending \<Rightarrow>
                         Inr (self\<lparr>pending_transactions :=
                                     Some (insert (tx_oid transaction) pending)\<rparr>))
                  else Inr (self\<lparr>verified_transactions :=
                                   insert (tx_oid transaction) (verified_transactions self)\<rparr>))
               else Inr (self\<lparr>rejected_transactions :=
                                insert (tx_oid transaction) (rejected_transactions self)\<rparr>)))"

text \<open>
  The nodes of a network are objects that refer to each other: \<open>net\<close> gives the object of
  each node reference. \<^verbatim>\<open>VoterComputer.broadcast_transactions\<close> hands each transaction
  to each mapped node, and an exception of one \<^verbatim>\<open>add_transaction\<close> ends the broadcast.
\<close>

fun deliver ::
  "(public_key_t \<Rightarrow> int) \<Rightarrow> ('c \<Rightarrow> signature_kwargs \<Rightarrow> string) \<Rightarrow> 'c transaction \<Rightarrow> nid list \<Rightarrow>
   (nid \<Rightarrow> Node) \<Rightarrow> error option \<times> (nid \<Rightarrow> Node)" where
  "deliver hash_key content_contents transaction [] net = (None, net)"
| "deliver hash_key content_contents transaction (n # ns) net =
     (case add_transaction hash_key content_contents (net n) transaction of
        Inl e \<Rightarrow> (Some e, net)
      | Inr node' \<Rightarrow> deliver hash_key content_contents transaction ns (net(n := node')))"

fun VoterComputer_broadcast_transactions ::
  "(public_key_t \<Rightarrow> int) \<Rightarrow> nid \<Rightarrow> VoterTransaction list \<Rightarrow> (nid \<Rightarrow> Node) \<Rightarrow>
   error option \<times> (nid \<Rightarrow> Node)" where
  "VoterComputer_broadcast_transactions hash_key self [] net = (None, net)"
| "VoterComputer_broadcast_transactions hash_key self (transaction # ts) net =
     (case node_mapping (net self) of
        None \<Rightarrow> (Some AttributeError, net)
      | Some m \<Rightarrow>
          (case deliver hash_key Voter_get_signature_contents transaction (map snd m) net of
             (Some e, net') \<Rightarrow> (Some e, net')
           | (None, net') \<Rightarrow> VoterComputer_broadcast_transactions hash_key self ts net'))"

text \<open>
  \<^verbatim>\<open>VoterComputer.create_transaction\<close>: the new transaction goes straight into the
  creator's verified set and is then broadcast. The result also holds the transaction
  object, when it was created.
\<close>

definition VoterComputer_create_transaction ::
  "(public_key_t \<Rightarrow> int) \<Rightarrow> oid \<Rightarrow> datetime \<Rightarrow> nid \<Rightarrow> Voter \<Rightarrow> (nid \<Rightarrow> Node) \<Rightarrow>
   error option \<times> (nid \<Rightarrow> Node) \<times> VoterTransaction option" where
  "VoterComputer_create_transaction hash_key new_oid now self voter net =
     (case VoterTransaction_init new_oid now (VoterObj voter) (node_keys.truncate (net self))
             NOT_VOTED VOTED True None of
        Inl e \<Rightarrow> (Some e, net, None)
      | Inr tx \<Rightarrow>
          (let net1 = net(self := (net self)\<lparr>verified_transactions :=
                                     insert (tx_oid tx) (verified_transactions (net self))\<rparr>)
           in case VoterComputer_broadcast_transactions hash_key self [tx] net1 of
                (e, net2) \<Rightarrow> (e, net2, Some tx)))"

subsection \<open>The ballot generator\<close>

text \<open>
  Creating an object takes the next free identity from \<open>next_oid\<close>; \<open>draws\<close> counts the
  calls of \<^verbatim>\<open>random.getrandbits(128)\<close>, whose results are given by a function \<open>rnd\<close>.
\<close>

record world =
  next_oid :: nat
  draws :: nat

text \<open>
  \<^verbatim>\<open>deepcopy\<close> of a list of choices: a choice already copied in this call (found in
  the memo by its identity) is reused, any other becomes a new object.
\<close>

fun deepcopy_choices ::
  "Choice list \<Rightarrow> (oid \<rightharpoonup> Choice) \<times> nat \<Rightarrow> Choice list \<times> (oid \<rightharpoonup> Choice) \<times> nat" where
  "deepcopy_choices [] (memo, n) = ([], memo, n)"
| "deepcopy_choices (c # cs) (memo, n) =
     (case memo (choice_oid c) of
        Some c' \<Rightarrow>
          (case deepcopy_choices cs (memo, n) of (cs', memo', n') \<Rightarrow> (c' # cs', memo', n'))
      | None \<Rightarrow>
          (let c' = c\<lparr>choice_oid := n\<rparr>
           in case deepcopy_choices cs (memo(choice_oid c \<mapsto> c'), Suc n) of
                (cs', memo', n') \<Rightarrow> (c' # cs', memo', n')))"

text \<open>\<^verbatim>\<open>BallotItem.__deepcopy__\<close>, called with a new memo for each item.\<close>

definition deepcopy_item :: "BallotItem \<Rightarrow> nat \<Rightarrow> BallotItem \<times> nat" where
  "deepcopy_item item n =
     (case deepcopy_choices (choices item) (Map.empty, n) of
        (cs', memo', n') \<Rightarrow> (item\<lparr>choices := cs'\<rparr>, n'))"

text \<open>\<^verbatim>\<open>utils.get_deep_copy_of_list\<close>.\<close>

fun get_deep_copy_of_list :: "BallotItem list \<Rightarrow> nat \<Rightarrow> BallotItem list \<times> nat" where
  "get_deep_copy_of_list [] n = ([], n)"
| "get_deep_copy_of_list (obj # objects) n =
     (case deepcopy_item obj n of
        (obj', n') \<Rightarrow>
          (case get_deep_copy_of_list objects n' of (new_list, n'') \<Rightarrow> (obj' # new_list, n'')))"

text \<open>\<^verbatim>\<open>Ballot(election, items)\<close>: a new object with a random identifier.\<close>

definition Ballot_init :: "(nat \<Rightarrow> nat) \<Rightarrow> string \<Rightarrow> BallotItem list \<Rightarrow> world \<Rightarrow> Ballot \<times> world" where
  "Ballot_init rnd election_arg items_arg w =
     (\<lparr>ballot_oid = next_oid w,
       ballot_id = str_nat (rnd (draws w) mod 2 ^ 128),
       election = election_arg,
       items = items_arg\<rparr>,
      w\<lparr>next_oid := Suc (next_oid w), draws := Suc (draws w)\<rparr>)"

text \<open>The loop of \<^verbatim>\<open>generate_ballots\<close>, \<^verbatim>\<open>for i in range(num_ballots)\<close>.\<close>

fun generate_loop ::
  "(nat \<Rightarrow> nat) \<Rightarrow> string \<Rightarrow> BallotItem list \<Rightarrow> nat \<Rightarrow> world \<Rightarrow> Ballot list \<times> world" where
  "generate_loop rnd election_arg items_arg 0 w = ([], w)"
| "generate_loop rnd election_arg items_arg (Suc k) w =
     (case get_deep_copy_of_list items_arg (next_oid w) of
        (copies, n') \<Rightarrow>
          (case Ballot_init rnd election_arg copies (w\<lparr>next_oid := n'\<rparr>) of
             (ballot, w') \<Rightarrow>
               (case generate_loop rnd election_arg items_arg k w' of
                  (ballots, w'') \<Rightarrow> (ballot # ballots, w''))))"

record BallotGenerator_state =
  ballots :: "Ballot list"
  available_ballots :: "Ballot list"

text \<open>
  \<^verbatim>\<open>BallotGenerator.generate_ballots\<close>; \<open>num_ballots\<close> is \<open>None\<close> for the default. The
  result is the returned list, the generator's two attributes and the world.
\<close>

definition generate_ballots ::
  "(nat \<Rightarrow> nat) \<Rightarrow> string \<Rightarrow> BallotItem list \<Rightarrow> nat option \<Rightarrow> world \<Rightarrow>
   Ballot list \<times> BallotGenerator_state \<times> world" where
  "generate_ballots rnd election_arg items_arg num_ballots w =
     (case (case num_ballots of
              None \<Rightarrow> ([], w)
            | Some k \<Rightarrow> if k = 0 then ([], w) else generate_loop rnd election_arg items_arg k w) of
        (bs, w') \<Rightarrow> (bs, \<lparr>ballots = bs, available_ballots = bs\<rparr>, w'))"

text \<open>\<^verbatim>\<open>Choice.select\<close> on choice \<open>j\<close> of item \<open>k\<close> of a ballot, as the voting booth does it.\<close>

definition select :: "Choice \<Rightarrow> Choice" where
  "select c = c\<lparr>chosen := True\<rparr>"

definition select_choice :: "Ballot \<Rightarrow> nat \<Rightarrow> nat \<Rightarrow> error + Ballot" where
  "select_choice ballot k j =
     (if k < length (items ballot) then
        (let item = items ballot ! k
         in if j < length (choices item) then
              Inr (ballot\<lparr>items := (items ballot)
                     [k := item\<lparr>choices := (choices item)[j := select (choices item ! j)]\<rparr>]\<rparr>)
            else Inl IndexError)
      else Inl IndexError)"

section \<open>base.py: blocks and the chain\<close>

datatype ledger_obj = VoteLedgerObj VoteLedger | VoterLedgerObj VoterLedger

datatype block_class = BlockClass | VoteBlockClass | VoterBlockClass

text \<open>
  \<^verbatim>\<open>type(ledger) is self.ledger_class\<close>: \<^verbatim>\<open>Block.ledger_class\<close> is \<^verbatim>\<open>None\<close>, which
  is no object's type.
\<close>

fun is_ledger_class :: "block_class \<Rightarrow> ledger_obj \<Rightarrow> bool" where
  "is_ledger_class VoteBlockClass (VoteLedgerObj l) = True"
| "is_ledger_class VoterBlockClass (VoterLedgerObj l) = True"
| "is_ledger_class c l = False"

text \<open>
  A block object. \<open>previous_block\<close> refers to a block object (\<open>None\<close> is Python's
  \<^verbatim>\<open>None\<close>); \<open>header\<close> and \<open>block_node\<close> are \<open>None\<close> while the attribute is not set.
\<close>

record 'c Block =
  block_class :: block_class
  transactions :: "'c transaction list"
  previous_block :: "oid option"
  block_ledger :: ledger_obj
  block_time :: datetime
  header :: "signature_t option"
  block_node :: "node_keys option"

text \<open>The items of the list \<^verbatim>\<open>str_list\<close>: strings, signatures (bytes) and a hash (an int).\<close>

datatype pyval = PyStr string | PyBytes signature_t | PyInt int

fun the_strs :: "pyval list \<Rightarrow> string list option" where
  "the_strs [] = Some []"
| "the_strs (PyStr s # vs) = (case the_strs vs of None \<Rightarrow> None | Some ss \<Rightarrow> Some (s # ss))"
| "the_strs (v # vs) = None"

text \<open>\<^verbatim>\<open>sep.join(xs)\<close> raises \<^verbatim>\<open>TypeError\<close> on an item that is not a string.\<close>

definition join_py :: "string \<Rightarrow> pyval list \<Rightarrow> error + string" where
  "join_py sep vs = (case the_strs vs of None \<Rightarrow> Inl TypeError | Some ss \<Rightarrow> Inr (join sep ss))"

text \<open>
  The loop of \<^verbatim>\<open>Block.get_signature_contents\<close> over the transactions; \<open>decode\<close> is
  \<^verbatim>\<open>bytes.decode\<close> on a signature.
\<close>

fun decode_signatures ::
  "(signature_t \<Rightarrow> error + string) \<Rightarrow> 'c transaction list \<Rightarrow> error + pyval list" where
  "decode_signatures decode [] = Inr []"
| "decode_signatures decode (tx # txs) =
     (case signature tx of
        None \<Rightarrow> Inl AttributeError
      | Some sg \<Rightarrow>
          (case decode sg of
             Inl e \<Rightarrow> Inl e
           | Inr s \<Rightarrow>
               (case decode_signatures decode txs of
                  Inl e \<Rightarrow> Inl e
                | Inr vs \<Rightarrow> Inr (PyStr s # vs))))"

text \<open>
  \<^verbatim>\<open>Block.get_signature_contents\<close>. The loop reads the name \<^verbatim>\<open>block\<close>, which is
  neither a parameter nor a local variable: it is looked up among the names of the
  module, here \<open>globals\<close>. \<open>heap\<close> gives the block object of a reference, \<open>get_hash\<close> is
  \<^verbatim>\<open>Ledger.get_hash\<close>, Python's \<^verbatim>\<open>hash\<close> of the dictionary's text.
\<close>

definition Block_get_signature_contents ::
  "(string \<rightharpoonup> 'c Block) \<Rightarrow> (oid \<Rightarrow> 'c Block) \<Rightarrow> (signature_t \<Rightarrow> error + string) \<Rightarrow>
   (ledger_obj \<Rightarrow> int) \<Rightarrow> 'c Block \<Rightarrow> error + string" where
  "Block_get_signature_contents globals heap decode get_hash self =
     (case (case previous_block self of
              Some p \<Rightarrow>
                (case header (heap p) of
                   None \<Rightarrow> Inl AttributeError
                 | Some h \<Rightarrow> Inr [PyBytes h])
            | None \<Rightarrow> Inr [PyStr []]) of
        Inl e \<Rightarrow> Inl e
      | Inr str_list \<Rightarrow>
          (case globals ''block'' of
             None \<Rightarrow> Inl NameError
           | Some block \<Rightarrow>
               (case decode_signatures decode (transactions block) of
                  Inl e \<Rightarrow> Inl e
                | Inr sigs \<Rightarrow>
                    join_py '':''
                      (str_list @ sigs
                       @ [PyInt (get_hash (block_ledger self)),
                          PyStr (get_formatted_time_str (block_time self))]))))"

text \<open>
  The names bound at the top of \<^verbatim>\<open>base.py\<close> are the imported modules and names
  (\<^verbatim>\<open>datetime\<close>, \<^verbatim>\<open>random\<close>, \<^verbatim>\<open>utils\<close>, \<^verbatim>\<open>STATE\<close>, \<^verbatim>\<open>deepcopy\<close>, \<^verbatim>\<open>Ballot\<close>,
  \<^verbatim>\<open>Voter\<close>) and the classes the file defines. None of them is \<^verbatim>\<open>block\<close>, and none
  is a block object.
\<close>

definition base_globals :: "string \<rightharpoonup> 'c Block" where
  "base_globals = Map.empty"

text \<open>
  The attributes of class \<^verbatim>\<open>Block\<close> are \<^verbatim>\<open>ledger_class\<close>, \<^verbatim>\<open>__init__\<close>, \<^verbatim>\<open>__eq__\<close>,
  \<^verbatim>\<open>get_signature_contents\<close> and \<^verbatim>\<open>is_genesis_block\<close>. The only one that takes a block
  and returns a string is listed here by its name.
\<close>

definition Block_methods ::
  "(oid \<Rightarrow> 'c Block) \<Rightarrow> (signature_t \<Rightarrow> error + string) \<Rightarrow> (ledger_obj \<Rightarrow> int) \<Rightarrow>
   (string \<times> ('c Block \<Rightarrow> error + string)) list" where
  "Block_methods heap decode get_hash =
     [(''get_signature_contents'', Block_get_signature_contents base_globals heap decode get_hash)]"

text \<open>
  \<^verbatim>\<open>Block.__init__\<close>. \<^verbatim>\<open>raise('Wrong type of ledger')\<close> raises a string, which is a
  \<^verbatim>\<open>TypeError\<close>. The header is the node's signature of \<^verbatim>\<open>Block.get_hash(self)\<close>, an
  attribute looked up on the class.
\<close>

definition Block_init ::
  "(oid \<Rightarrow> 'c Block) \<Rightarrow> (signature_t \<Rightarrow> error + string) \<Rightarrow> (ledger_obj \<Rightarrow> int) \<Rightarrow>
   block_class \<Rightarrow> datetime \<Rightarrow> 'c transaction list \<Rightarrow> ledger_obj \<Rightarrow> node_keys \<Rightarrow> oid option \<Rightarrow>
   error + 'c Block" where
  "Block_init heap decode get_hash cls now transactions_arg ledger_arg node_arg prev_block =
     (if \<not> is_ledger_class cls ledger_arg then Inl TypeError
      else
        (let self = \<lparr>block_class = cls, transactions = transactions_arg,
                     previous_block = prev_block, block_ledger = ledger_arg,
                     block_time = now, header = None, block_node = None\<rparr>
         in case map_of (Block_methods heap decode get_hash) ''get_hash'' of
              None \<Rightarrow> Inl AttributeError
            | Some get_hash_method \<Rightarrow>
                (case get_hash_method self of
                   Inl e \<Rightarrow> Inl e
                 | Inr message \<Rightarrow>
                     Inr (self\<lparr>header := Some (sign_message node_arg message),
                               block_node := Some node_arg\<rparr>))))"

text \<open>
  The chain: its ledger and its head, a reference to a block object or \<^verbatim>\<open>None\<close>.
\<close>

record Blockchain =
  current_ledger :: ledger_obj
  current_block :: "oid option"

definition Blockchain_init :: "ledger_obj \<Rightarrow> Blockchain" where
  "Blockchain_init initial_ledger = \<lparr>current_ledger = initial_ledger, current_block = None\<rparr>"

text \<open>
  \<^verbatim>\<open>Blockchain.add_block\<close>. \<^verbatim>\<open>is\<close> compares the two references. The result holds the
  lines printed, so that a rejection is seen.
\<close>

definition add_block ::
  "Blockchain \<Rightarrow> (oid \<Rightarrow> 'c Block) \<Rightarrow> oid \<Rightarrow> string list \<times> Blockchain" where
  "add_block self heap block =
     (if previous_block (heap block) = current_block self
      then ([], self\<lparr>current_block := Some block\<rparr>)
      else ([''block rejected. must build off current block''], self))"

text \<open>\<^verbatim>\<open>Blockchain.add_block_2\<close> writes the block object and the chain.\<close>

definition add_block_2 ::
  "Blockchain \<Rightarrow> (oid \<Rightarrow> 'c Block) \<Rightarrow> oid \<Rightarrow> Blockchain \<times> (oid \<Rightarrow> 'c Block)" where
  "add_block_2 self heap block =
     (let heap' = heap(block := (heap block)\<lparr>previous_block := current_block self\<rparr>)
      in (self\<lparr>current_block := Some block\<rparr>, heap'))"

definition remove_block :: "Blockchain \<Rightarrow> oid \<Rightarrow> error + Blockchain" where
  "remove_block self block = Inl Exception"

section \<open>Notions used by the properties\<close>

text \<open>
  The sum of the per-state counters of a ledger; \<open>None\<close> when a counter is missing or
  is not an integer.
\<close>

definition vote_counter_sum :: "pydict \<Rightarrow> int option" where
  "vote_counter_sum d =
     (case (d (StrKey CREATED), d (StrKey ISSUED), d (StrKey USED)) of
        (Some (IntVal c), Some (IntVal i), Some (IntVal u)) \<Rightarrow> Some (c + i + u)
      | _ \<Rightarrow> None)"

definition voter_counter_sum :: "pydict \<Rightarrow> int option" where
  "voter_counter_sum d =
     (case (d (StrKey NOT_VOTED), d (StrKey VOTED)) of
        (Some (IntVal n), Some (IntVal v)) \<Rightarrow> Some (n + v)
      | _ \<Rightarrow> None)"

text \<open>What the constructor has checked of a transaction it returned.\<close>

definition states_allowed :: "string list \<Rightarrow> 'c transaction \<Rightarrow> bool" where
  "states_allowed allowed t \<longleftrightarrow> previous_state t \<in> set allowed \<and> new_state t \<in> set allowed"

text \<open>
  A sequence of calls of \<^verbatim>\<open>apply_transactions\<close> on one ledger object. A call that
  raised has still written the ledger, and the next call goes on from there.
\<close>

fun VoteLedger_replay ::
  "VoteLedger \<Rightarrow> flags \<Rightarrow> VoteTransaction list list \<Rightarrow> VoteLedger \<times> flags" where
  "VoteLedger_replay l fl [] = (l, fl)"
| "VoteLedger_replay l fl (batch # batches) =
     (case VoteLedger_apply_transactions l fl batch of
        (e, l', fl') \<Rightarrow> VoteLedger_replay l' fl' batches)"

fun VoterLedger_replay :: "VoterLedger \<Rightarrow> VoterTransaction list list \<Rightarrow> VoterLedger" where
  "VoterLedger_replay l [] = l"
| "VoterLedger_replay l (batch # batches) =
     (case VoterLedger_apply_transactions l batch of (e, l') \<Rightarrow> VoterLedger_replay l' batches)"

text \<open>
  The legal edges of the two state machines, Created to Issued to Used for a ballot and
  NotVoted to Voted for a voter. The constructor does not check them.
\<close>

definition legal_vote_edge :: "VoteTransaction \<Rightarrow> bool" where
  "legal_vote_edge t \<longleftrightarrow>
     (previous_state t = CREATED \<and> new_state t = ISSUED)
     \<or> (previous_state t = ISSUED \<and> new_state t = USED)"

definition legal_voter_edge :: "VoterTransaction \<Rightarrow> bool" where
  "legal_voter_edge t \<longleftrightarrow> previous_state t = NOT_VOTED \<and> new_state t = VOTED"

text \<open>
  A transaction is stale in a ledger when its entity has already left the
  transaction's previous state along the legal edges, as it has once the transaction
  was applied.
\<close>

definition vote_stale :: "pydict \<Rightarrow> VoteTransaction \<Rightarrow> bool" where
  "vote_stale d t \<longleftrightarrow>
     (let recorded = d (BallotKey (ballot_oid (content t))) in
      (previous_state t = CREATED
         \<and> (recorded = Some (StrVal ISSUED) \<or> recorded = Some (StrVal USED)))
      \<or> (previous_state t = ISSUED \<and> recorded = Some (StrVal USED)))"

definition voter_stale :: "pydict \<Rightarrow> VoterTransaction \<Rightarrow> bool" where
  "voter_stale d t \<longleftrightarrow>
     previous_state t = NOT_VOTED \<and> d (VoterKey (voter_oid (content t))) = Some (StrVal VOTED)"

text \<open>A batch without the copies of one transaction object.\<close>

definition without :: "'c transaction \<Rightarrow> 'c transaction list \<Rightarrow> 'c transaction list" where
  "without t txs = filter (\<lambda>x. tx_oid x \<noteq> tx_oid t) txs"

text \<open>All the choice objects of a ballot.\<close>

definition ballot_choices :: "Ballot \<Rightarrow> Choice list" where
  "ballot_choices b = concat (map choices (items b))"

text \<open>
  The blocks met when following the \<open>previous_block\<close> references from a head, at most
  \<open>n\<close> of them.
\<close>

fun chain_blocks :: "nat \<Rightarrow> (oid \<Rightarrow> 'c Block) \<Rightarrow> oid option \<Rightarrow> oid list" where
  "chain_blocks 0 heap b = []"
| "chain_blocks (Suc n) heap None = []"
| "chain_blocks (Suc n) heap (Some b) = b # chain_blocks n heap (previous_block (heap b))"

section \<open>A small election\<close>

text \<open>
  Two ballots of one item with two choices, as \<^verbatim>\<open>generate_ballots\<close> makes them: every
  ballot has its own choice objects. They serve as concrete inputs below.
\<close>

definition ex_choice :: "oid \<Rightarrow> string \<Rightarrow> Choice" where
  "ex_choice i d = \<lparr>choice_oid = i, choice_description = d, chosen = False\<rparr>"

definition ex_item :: "oid \<Rightarrow> BallotItem" where
  "ex_item i =
     \<lparr>title = ''President'', item_description = ''President of the United States'',
      max_choices = 1, choices = [ex_choice i ''X'', ex_choice (Suc i) ''Y'']\<rparr>"

definition ex_ballot1 :: Ballot where
  "ex_ballot1 = \<lparr>ballot_oid = 1, ballot_id = ''101'', election = ''2018 Election'', items = [ex_item 10]\<rparr>"

definition ex_ballot2 :: Ballot where
  "ex_ballot2 = \<lparr>ballot_oid = 2, ballot_id = ''102'', election = ''2018 Election'', items = [ex_item 20]\<rparr>"

text \<open>The first ballot once its voter has selected choice X.\<close>

definition ex_ballot1_X :: Ballot where
  "ex_ballot1_X =
     \<lparr>ballot_oid = 1, ballot_id = ''101'', election = ''2018 Election'',
      items = [\<lparr>title = ''President'', item_description = ''President of the United States'',
                max_choices = 1,
                choices = [\<lparr>choice_oid = 10, choice_description = ''X'', chosen = True\<rparr>,
                           \<lparr>choice_oid = 11, choice_description = ''Y'', chosen = False\<rparr>]\<rparr>]\<rparr>"

definition ex_now :: datetime where
  "ex_now = \<lparr>year = 2018, month = 11, day = 6, hour = 9, minute = 5, second = 30\<rparr>"

definition ex_generator :: node_keys where
  "ex_generator = \<lparr>public_key = PublicKey 7, private_key = PrivateKey 7\<rparr>"

definition ex_computer :: node_keys where
  "ex_computer = \<lparr>public_key = PublicKey 8, private_key = PrivateKey 8\<rparr>"

text \<open>
  The two transactions of the first ballot, as the constructor builds them on the one
  ballot object, which the voter has filled by the time they are replayed; a third
  transaction that stays in the state Created; and the transactions of the two voters.
\<close>

definition ex_issue_tx :: VoteTransaction where
  "ex_issue_tx =
     \<lparr>tx_oid = 31, content = ex_ballot1_X, tx_kwargs = Some False,
      previous_state = CREATED, new_state = ISSUED, node = ex_generator,
      timestamped = False, time = None,
      signature = Some (Signature 7
        ''101:2018 Election:President:President of the United States:1:X:Y:ballot_created:ballot_issued'')\<rparr>"

definition ex_use_tx :: VoteTransaction where
  "ex_use_tx =
     \<lparr>tx_oid = 32, content = ex_ballot1_X, tx_kwargs = None,
      previous_state = ISSUED, new_state = USED, node = ex_computer,
      timestamped = False, time = None,
      signature = Some (Signature 8
        ''101:2018 Election:President:President of the United States:1:X:True:Y:False:ballot_issued:ballot_used'')\<rparr>"

definition ex_loop_tx :: VoteTransaction where
  "ex_loop_tx =
     \<lparr>tx_oid = 33, content = ex_ballot1_X, tx_kwargs = None,
      previous_state = CREATED, new_state = CREATED, node = ex_generator,
      timestamped = False, time = None,
      signature = Some (Signature 7
        ''101:2018 Election:President:President of the United States:1:X:True:Y:False:ballot_created:ballot_created'')\<rparr>"

definition ex_vote_ledger :: VoteLedger where
  "ex_vote_ledger = projr (VoteLedger_init [ex_ballot1, ex_ballot2])"

definition ex_voter1 :: Voter where
  "ex_voter1 = \<lparr>voter_oid = 1, name = ''Mateusz Gembarzewski'', voter_id = ''1'', voter_state = NOT_VOTED\<rparr>"

definition ex_voter2 :: Voter where
  "ex_voter2 = \<lparr>voter_oid = 2, name = ''Jai Punjwani'', voter_id = ''2'', voter_state = NOT_VOTED\<rparr>"

definition ex_voter_computer :: node_keys where
  "ex_voter_computer = \<lparr>public_key = PublicKey 9, private_key = PrivateKey 9\<rparr>"

definition ex_voter_tx :: VoterTransaction where
  "ex_voter_tx =
     \<lparr>tx_oid = 41, content = ex_voter1, tx_kwargs = None,
      previous_state = NOT_VOTED, new_state = VOTED, node = ex_voter_computer,
      timestamped = True, time = Some ex_now,
      signature = Some (Signature 9 ''1:not voted:voted:2018-11-06 09:05'')\<rparr>"

definition ex_voter_tx2 :: VoterTransaction where
  "ex_voter_tx2 =
     \<lparr>tx_oid = 42, content = ex_voter2, tx_kwargs = None,
      previous_state = NOT_VOTED, new_state = VOTED, node = ex_voter_computer,
      timestamped = True, time = Some ex_now,
      signature = Some (Signature 9 ''2:not voted:voted:2018-11-06 09:05'')\<rparr>"

definition ex_voter_ledger :: VoterLedger where
  "ex_voter_ledger = VoterLedger_init [ex_voter1, ex_voter2]"

text \<open>The ledgers after one batch.\<close>

definition ex_after_issue :: "error option \<times> VoteLedger \<times> flags" where
  "ex_after_issue = VoteLedger_apply_transactions ex_vote_ledger Map.empty [ex_issue_tx]"

definition ex_after_loop :: "error option \<times> VoteLedger \<times> flags" where
  "ex_after_loop = VoteLedger_apply_transactions ex_vote_ledger Map.empty [ex_loop_tx]"

definition ex_after_vote :: "error option \<times> VoterLedger" where
  "ex_after_vote = VoterLedger_apply_transactions ex_voter_ledger [ex_voter_tx]"

text \<open>A transaction that skips the state Issued: it conflicts with \<open>ex_issue_tx\<close>.\<close>

definition ex_skip_tx :: VoteTransaction where
  "ex_skip_tx =
     \<lparr>tx_oid = 34, content = ex_ballot1_X, tx_kwargs = None,
      previous_state = CREATED, new_state = USED, node = ex_computer,
      timestamped = False, time = None,
      signature = Some (Signature 8
        ''101:2018 Election:President:President of the United States:1:X:True:Y:False:ballot_created:ballot_used'')\<rparr>"

text \<open>
  What \<^verbatim>\<open>generate_ballots\<close> makes of one item for two ballots, the second ballot once
  its voter has selected X, and the two transactions of the second ballot.
\<close>

definition ex_rnd :: "nat \<Rightarrow> nat" where
  "ex_rnd k = 101 + k"

definition ex_world :: world where
  "ex_world = \<lparr>next_oid = 100, draws = 0\<rparr>"

definition ex_made :: "oid \<Rightarrow> string \<Rightarrow> oid \<Rightarrow> bool \<Rightarrow> Ballot" where
  "ex_made b_oid b_id c_oid x_chosen =
     \<lparr>ballot_oid = b_oid, ballot_id = b_id, election = ''2018 Election'',
      items = [\<lparr>title = ''President'', item_description = ''President of the United States'',
                max_choices = 1,
                choices = [\<lparr>choice_oid = c_oid, choice_description = ''X'', chosen = x_chosen\<rparr>,
                           \<lparr>choice_oid = Suc c_oid, choice_description = ''Y'', chosen = False\<rparr>]\<rparr>]\<rparr>"

definition ex_made_ballots :: "Ballot list" where
  "ex_made_ballots = [ex_made 102 ''101'' 100 False, ex_made 105 ''102'' 103 False]"

definition ex_made_ledger :: VoteLedger where
  "ex_made_ledger = projr (VoteLedger_init ex_made_ballots)"

definition ex_issue_tx_B :: VoteTransaction where
  "ex_issue_tx_B =
     \<lparr>tx_oid = 35, content = ex_made 105 ''102'' 103 False, tx_kwargs = Some False,
      previous_state = CREATED, new_state = ISSUED, node = ex_generator,
      timestamped = False, time = None,
      signature = Some (Signature 7
        ''102:2018 Election:President:President of the United States:1:X:Y:ballot_created:ballot_issued'')\<rparr>"

definition ex_use_tx_B :: VoteTransaction where
  "ex_use_tx_B =
     \<lparr>tx_oid = 36, content = ex_made 105 ''102'' 103 True, tx_kwargs = None,
      previous_state = ISSUED, new_state = USED, node = ex_computer,
      timestamped = False, time = None,
      signature = Some (Signature 8
        ''102:2018 Election:President:President of the United States:1:X:True:Y:False:ballot_issued:ballot_used'')\<rparr>"

text \<open>
  Three block objects: block 1 with no predecessor, block 2 built on block 1, and
  block 3 built on nothing. The chain's head is block 2.
\<close>

definition ex_block :: "oid option \<Rightarrow> string \<Rightarrow> Ballot Block" where
  "ex_block prev h =
     \<lparr>block_class = VoteBlockClass, transactions = [], previous_block = prev,
      block_ledger = VoteLedgerObj ex_vote_ledger, block_time = ex_now,
      header = Some (Signature 8 h), block_node = Some ex_computer\<rparr>"

definition ex_heap :: "oid \<Rightarrow> Ballot Block" where
  "ex_heap b =
     (if b = 2 then ex_block (Some 1) ''second'' else if b = 3 then ex_block None ''third''
      else ex_block None ''first'')"

definition ex_chain :: Blockchain where
  "ex_chain = \<lparr>current_ledger = VoteLedgerObj ex_vote_ledger, current_block = Some 2\<rparr>"

text \<open>
  The batching boundary: the two transactions of the first ballot after
  \<^verbatim>\<open>timestamp_and_sign_transactions\<close> at a later time.
\<close>

definition ex_later :: datetime where
  "ex_later = \<lparr>year = 2018, month = 11, day = 6, hour = 17, minute = 30, second = 0\<rparr>"

definition ex_issue_tx_resigned :: VoteTransaction where
  "ex_issue_tx_resigned =
     ex_issue_tx\<lparr>time := Some ex_later, timestamped := True,
       signature := Some (Signature 7
         ''101:2018 Election:President:President of the United States:1:X:True:Y:False:ballot_created:ballot_issued:2018-11-06 17:30'')\<rparr>"

definition ex_use_tx_resigned :: VoteTransaction where
  "ex_use_tx_resigned =
     ex_use_tx\<lparr>time := Some ex_later, timestamped := True,
       signature := Some (Signature 8
         ''101:2018 Election:President:President of the United States:1:X:True:Y:False:ballot_issued:ballot_used:2018-11-06 17:30'')\<rparr>"

text \<open>
  Nodes: a voter computer (keys 9) whose only peer is the voter computer with keys 10,
  that peer, a voting computer (keys 11) whose peer is the voting computer with keys 8
  and which knows the ballot generator (keys 7); and an untimestamped voter transaction
  signed by the peer.
\<close>

definition ex_hash :: "public_key_t \<Rightarrow> int" where
  "ex_hash pk = (case pk of PublicKey k \<Rightarrow> int k)"

definition ex_voter_node :: Node where
  "ex_voter_node =
     set_node_mapping ex_hash (Node_init VoterComputer (PublicKey 9) (PrivateKey 9))
       [(9, 1), (10, 2)]"

definition ex_voter_peer :: Node where
  "ex_voter_peer =
     set_node_mapping ex_hash (Node_init VoterComputer (PublicKey 10) (PrivateKey 10))
       [(9, 1), (10, 2)]"

definition ex_voter_net :: "nid \<Rightarrow> Node" where
  "ex_voter_net n = (if n = 1 then ex_voter_node else ex_voter_peer)"

definition ex_voting_node :: Node where
  "ex_voting_node =
     set_ballot_generator
       (set_node_mapping ex_hash (Node_init VotingComputer (PublicKey 11) (PrivateKey 11))
          [(8, 3), (11, 4)])
       (Node_init BallotGenerator (PublicKey 7) (PrivateKey 7))"

definition ex_untimestamped_voter_tx :: VoterTransaction where
  "ex_untimestamped_voter_tx =
     \<lparr>tx_oid = 43, content = ex_voter2, tx_kwargs = None,
      previous_state = NOT_VOTED, new_state = VOTED,
      node = \<lparr>public_key = PublicKey 10, private_key = PrivateKey 10\<rparr>,
      timestamped = False, time = None,
      signature = Some (Signature 10 ''2:not voted:voted'')\<rparr>"

text \<open>A voter computer creating the transaction of the first voter in its network.\<close>

definition ex_created ::
  "error option \<times> (nid \<Rightarrow> Node) \<times> VoterTransaction option" where
  "ex_created = VoterComputer_create_transaction ex_hash 41 ex_now 1 ex_voter1 ex_voter_net"

section \<open>Properties\<close>

subsection \<open>The example objects are what the code builds\<close>

lemma ex_ballot1_X_selected: "select_choice ex_ballot1 0 0 = Inr ex_ballot1_X"
  by code_simp

lemma ex_vote_ledger_init: "VoteLedger_init [ex_ballot1, ex_ballot2] = Inr ex_vote_ledger"
  by (simp add: ex_vote_ledger_def VoteLedger_init_def Let_def)

lemma ex_issue_tx_constructed:
  "VoteTransaction_init 31 ex_now (BallotObj ex_ballot1_X) ex_generator
     CREATED ISSUED False (Some False) = Inr ex_issue_tx"
  by code_simp

lemma ex_use_tx_constructed:
  "VoteTransaction_init 32 ex_now (BallotObj ex_ballot1_X) ex_computer
     ISSUED USED False None = Inr ex_use_tx"
  by code_simp

lemma ex_loop_tx_constructed:
  "VoteTransaction_init 33 ex_now (BallotObj ex_ballot1_X) ex_generator
     CREATED CREATED False None = Inr ex_loop_tx"
  by code_simp

lemma ex_voter_tx_constructed:
  "VoterTransaction_init 41 ex_now (VoterObj ex_voter1) ex_voter_computer
     NOT_VOTED VOTED True None = Inr ex_voter_tx"
  "VoterTransaction_init 42 ex_now (VoterObj ex_voter2) ex_voter_computer
     NOT_VOTED VOTED True None = Inr ex_voter_tx2"
  by code_simp+


text \<open>
  C1. The tally of a candidate should grow only when a transaction moves a ballot into
  the state Used. \<^verbatim>\<open>apply_transactions\<close> adds one for each selected choice of the
  ballot whenever a transaction is applied, whatever its new state: here the
  transaction Created to Issued of a filled ballot raises the tally of X from 0 to 1
  while the ballot becomes Issued, and replaying the two transactions of that one
  ballot counts its vote twice.
\<close>

theorem C1_tally_grows_on_issue:
  "VoteLedger_init [ex_ballot1, ex_ballot2] = Inr ex_vote_ledger
   \<and> VoteTransaction_init 31 ex_now (BallotObj ex_ballot1_X) ex_generator
        CREATED ISSUED False (Some False) = Inr ex_issue_tx
   \<and> VoteTransaction_init 32 ex_now (BallotObj ex_ballot1_X) ex_computer
        ISSUED USED False None = Inr ex_use_tx
   \<and> ledger ex_vote_ledger (ChoiceKey 10) = Some (IntVal 0)
   \<and> (case VoteLedger_apply_transactions ex_vote_ledger Map.empty [ex_issue_tx] of
        (e, l, fl) \<Rightarrow>
          e = None \<and> ledger l (BallotKey 1) = Some (StrVal ISSUED)
          \<and> ledger l (StrKey USED) = Some (IntVal 0)
          \<and> ledger l (ChoiceKey 10) = Some (IntVal 1))
   \<and> (case VoteLedger_apply_transactions ex_vote_ledger Map.empty [ex_issue_tx, ex_use_tx] of
        (e, l, fl) \<Rightarrow>
          e = None \<and> ledger l (BallotKey 1) = Some (StrVal USED)
          \<and> ledger l (StrKey USED) = Some (IntVal 1)
          \<and> ledger l (ChoiceKey 10) = Some (IntVal 2))"
proof -
  note ex_vote_ledger_init
  moreover note ex_issue_tx_constructed
  moreover note ex_use_tx_constructed
  moreover have "ledger ex_vote_ledger (ChoiceKey 10) = Some (IntVal 0)"
    by code_simp
  moreover have "case VoteLedger_apply_transactions ex_vote_ledger Map.empty [ex_issue_tx] of
        (e, l, fl) \<Rightarrow>
          e = None \<and> ledger l (BallotKey 1) = Some (StrVal ISSUED)
          \<and> ledger l (StrKey USED) = Some (IntVal 0)
          \<and> ledger l (ChoiceKey 10) = Some (IntVal 1)"
    by code_simp
  moreover have "case VoteLedger_apply_transactions ex_vote_ledger Map.empty [ex_issue_tx, ex_use_tx] of
        (e, l, fl) \<Rightarrow>
          e = None \<and> ledger l (BallotKey 1) = Some (StrVal USED)
          \<and> ledger l (StrKey USED) = Some (IntVal 1)
          \<and> ledger l (ChoiceKey 10) = Some (IntVal 2)"
    by code_simp
  ultimately show ?thesis by blast
qed

subsection \<open>Helper facts about the ledgers\<close>

lemma state_names_distinct:
  "CREATED \<noteq> ISSUED" "CREATED \<noteq> USED" "ISSUED \<noteq> USED"
  "ISSUED \<noteq> CREATED" "USED \<noteq> CREATED" "USED \<noteq> ISSUED"
  "NOT_VOTED \<noteq> VOTED" "VOTED \<noteq> NOT_VOTED"
  by (simp_all add: CREATED_def ISSUED_def USED_def NOT_VOTED_def VOTED_def)

lemma update_candidate_votes_other:
  "(\<And>i. k \<noteq> ChoiceKey i) \<Longrightarrow> snd (update_candidate_votes cs d) k = d k"
proof (induction cs arbitrary: d)
  case Nil
  then show ?case by simp
next
  case (Cons c cs)
  then show ?case by (simp split: option.splits val.splits)
qed

lemma vote_counter_sum_cong:
  "(\<And>s. d' (StrKey s) = d (StrKey s)) \<Longrightarrow> vote_counter_sum d' = vote_counter_sum d"
  by (simp add: vote_counter_sum_def)

lemma update_ballot_counters:
  assumes "d (StrKey p) = Some (IntVal a)"
      and "(d(StrKey p \<mapsto> IntVal (a - 1))) (StrKey (new_state t)) = Some (IntVal m)"
  shows "update_ballot t (StrVal p) d =
           update_candidate_votes (get_selected_choices (content t))
             (d(BallotKey (ballot_oid (content t)) \<mapsto> StrVal (new_state t),
                StrKey p \<mapsto> IntVal (a - 1),
                StrKey (new_state t) \<mapsto> IntVal (m + 1)))"
  using assms by (auto simp: update_ballot_def Let_def split: if_splits)

lemma update_ballot_sum:
  assumes "previous_state t \<in> set VoteTransaction_allowed_states"
      and "new_state t \<in> set VoteTransaction_allowed_states"
      and "vote_counter_sum d = Some n"
  shows "vote_counter_sum (snd (update_ballot t (StrVal (previous_state t)) d)) = Some n"
proof -
  from assms(3) obtain c i u where
    ciu: "d (StrKey CREATED) = Some (IntVal c)" "d (StrKey ISSUED) = Some (IntVal i)"
         "d (StrKey USED) = Some (IntVal u)" "n = c + i + u"
    by (auto simp: vote_counter_sum_def split: option.splits val.splits)
  have cand: "\<And>cs d'. vote_counter_sum (snd (update_candidate_votes cs d')) = vote_counter_sum d'"
    by (rule vote_counter_sum_cong) (simp add: update_candidate_votes_other)
  from assms(1) obtain a where a: "d (StrKey (previous_state t)) = Some (IntVal a)"
    using ciu by (auto simp: VoteTransaction_allowed_states_def)
  from assms(2) obtain m where
    m: "(d(StrKey (previous_state t) \<mapsto> IntVal (a - 1))) (StrKey (new_state t)) = Some (IntVal m)"
    using ciu by (cases "new_state t = previous_state t")
      (auto simp: VoteTransaction_allowed_states_def)
  have p: "previous_state t = CREATED \<or> previous_state t = ISSUED \<or> previous_state t = USED"
    using assms(1) by (auto simp: VoteTransaction_allowed_states_def)
  have q: "new_state t = CREATED \<or> new_state t = ISSUED \<or> new_state t = USED"
    using assms(2) by (auto simp: VoteTransaction_allowed_states_def)
  show ?thesis
    unfolding update_ballot_counters [OF a m] cand
    using p q a m ciu
    by (auto simp: vote_counter_sum_def state_names_distinct)
qed

lemma vote_step_sum:
  assumes "states_allowed VoteTransaction_allowed_states t"
      and "vote_counter_sum (fst s) = Some n"
  shows "vote_counter_sum (fst (snd (vote_step iteration t s))) = Some n"
proof -
  have "vote_counter_sum (snd (update_ballot t (StrVal (previous_state t)) (fst s))) = Some n"
    using assms by (simp add: update_ballot_sum states_allowed_def)
  then show ?thesis
    using assms(2)
    by (auto simp: vote_step_def Let_def split: option.splits prod.splits)
qed

lemma vote_pass_sum:
  assumes "\<forall>t \<in> set ts. states_allowed VoteTransaction_allowed_states t"
      and "vote_counter_sum (fst s) = Some n"
  shows "vote_counter_sum (fst (snd (vote_pass iteration ts s))) = Some n"
  using assms
proof (induction ts arbitrary: s)
  case Nil
  then show ?case by simp
next
  case (Cons t ts)
  obtain e s' where step: "vote_step iteration t s = (e, s')"
    by (cases "vote_step iteration t s")
  have "vote_counter_sum (fst (snd (vote_step iteration t s))) = Some n"
    using Cons.prems by (simp add: vote_step_sum)
  with step have s': "vote_counter_sum (fst s') = Some n" by simp
  show ?case
  proof (cases e)
    case None
    with step Cons.IH [OF _ s'] Cons.prems(1) show ?thesis by simp
  next
    case (Some err)
    with step s' show ?thesis by simp
  qed
qed

lemma vote_passes_sum:
  assumes "\<forall>t \<in> set ts. states_allowed VoteTransaction_allowed_states t"
      and "vote_counter_sum (fst s) = Some n"
  shows "vote_counter_sum (fst (snd (vote_passes ts s))) = Some n"
proof -
  obtain e s' where p0: "vote_pass 0 ts s = (e, s')"
    by (cases "vote_pass 0 ts s")
  have "vote_counter_sum (fst (snd (vote_pass 0 ts s))) = Some n"
    using assms by (rule vote_pass_sum)
  with p0 have s': "vote_counter_sum (fst s') = Some n" by simp
  show ?thesis
  proof (cases e)
    case None
    with p0 vote_pass_sum [OF assms(1) s', of 1] show ?thesis
      by (simp add: vote_passes_def)
  next
    case (Some err)
    with p0 s' show ?thesis by (simp add: vote_passes_def)
  qed
qed

lemma VoteLedger_apply_transactions_sum:
  assumes "\<forall>t \<in> set ts. states_allowed VoteTransaction_allowed_states t"
      and "vote_counter_sum (ledger l) = Some n"
  shows "vote_counter_sum (ledger (fst (snd (VoteLedger_apply_transactions l fl ts)))) = Some n"
    and "total_ballots (fst (snd (VoteLedger_apply_transactions l fl ts))) = total_ballots l"
  using vote_passes_sum [OF assms(1), of "(ledger l, fl)" n] assms(2)
  by (cases "vote_passes ts (ledger l, fl)"; simp add: VoteLedger_apply_transactions_def)+

lemma VoteLedger_replay_sum:
  assumes "\<forall>ts \<in> set batches. \<forall>t \<in> set ts. states_allowed VoteTransaction_allowed_states t"
      and "vote_counter_sum (ledger l) = Some n"
  shows "vote_counter_sum (ledger (fst (VoteLedger_replay l fl batches))) = Some n
         \<and> total_ballots (fst (VoteLedger_replay l fl batches)) = total_ballots l"
  using assms
proof (induction batches arbitrary: l fl)
  case Nil
  then show ?case by simp
next
  case (Cons ts batches)
  obtain e l' fl' where ap: "VoteLedger_apply_transactions l fl ts = (e, l', fl')"
    by (cases "VoteLedger_apply_transactions l fl ts") auto
  from Cons.prems have ts: "\<forall>t \<in> set ts. states_allowed VoteTransaction_allowed_states t"
    by simp
  from VoteLedger_apply_transactions_sum [OF ts Cons.prems(2), of fl] ap
  have l': "vote_counter_sum (ledger l') = Some n" "total_ballots l' = total_ballots l"
    by simp_all
  from Cons.IH [OF _ l'(1), of fl'] Cons.prems(1) l'(2) ap show ?case by simp
qed

lemma fold_ballot_keys_other:
  "(\<And>i. k \<noteq> BallotKey i) \<Longrightarrow>
   fold (\<lambda>ballot d. d(BallotKey (ballot_oid ballot) \<mapsto> v)) bs d k = d k"
  by (induction bs arbitrary: d) simp_all

lemma fold_choice_keys_other:
  "(\<And>i. k \<noteq> ChoiceKey i) \<Longrightarrow>
   fold (\<lambda>candidate d. d(ChoiceKey (choice_oid candidate) \<mapsto> v)) cs d k = d k"
  by (induction cs arbitrary: d) simp_all

lemma VoteLedger_init_sum:
  assumes "VoteLedger_init bs = Inr l"
  shows "vote_counter_sum (ledger l) = Some (int (length bs))" and "total_ballots l = length bs"
  using assms
  by (auto simp: VoteLedger_init_def Let_def vote_counter_sum_def fold_choice_keys_other
      fold_ballot_keys_other state_names_distinct split: list.splits)

lemma voter_counter_sum_cong:
  "(\<And>s. d' (StrKey s) = d (StrKey s)) \<Longrightarrow> voter_counter_sum d' = voter_counter_sum d"
  by (simp add: voter_counter_sum_def)

lemma voter_step_sum:
  assumes "states_allowed VoterTransaction_allowed_states t"
      and "voter_counter_sum d = Some n"
  shows "voter_counter_sum (snd (voter_step t d)) = Some n"
proof -
  from assms(2) obtain a b where
    ab: "d (StrKey NOT_VOTED) = Some (IntVal a)" "d (StrKey VOTED) = Some (IntVal b)" "n = a + b"
    by (auto simp: voter_counter_sum_def split: option.splits val.splits)
  have p: "previous_state t = NOT_VOTED \<or> previous_state t = VOTED"
    using assms(1) by (auto simp: states_allowed_def VoterTransaction_allowed_states_def)
  have q: "new_state t = NOT_VOTED \<or> new_state t = VOTED"
    using assms(1) by (auto simp: states_allowed_def VoterTransaction_allowed_states_def)
  show ?thesis
    using p q ab
    by (auto simp: voter_step_def Let_def voter_counter_sum_def state_names_distinct
        split: option.splits val.splits)
qed

lemma voter_pass_sum:
  assumes "\<forall>t \<in> set ts. states_allowed VoterTransaction_allowed_states t"
      and "voter_counter_sum d = Some n"
  shows "voter_counter_sum (snd (voter_pass ts d)) = Some n"
  using assms
proof (induction ts arbitrary: d)
  case Nil
  then show ?case by simp
next
  case (Cons t ts)
  obtain e d' where step: "voter_step t d = (e, d')"
    by (cases "voter_step t d")
  from voter_step_sum [of t d n] Cons.prems step
  have d': "voter_counter_sum d' = Some n" by simp
  show ?case
  proof (cases e)
    case None
    with step Cons.IH [OF _ d'] Cons.prems(1) show ?thesis by simp
  next
    case (Some err)
    with step d' show ?thesis by simp
  qed
qed

lemma VoterLedger_apply_transactions_sum:
  assumes "\<forall>t \<in> set ts. states_allowed VoterTransaction_allowed_states t"
      and "voter_counter_sum (ledger l) = Some n"
  shows "voter_counter_sum (ledger (snd (VoterLedger_apply_transactions l ts))) = Some n"
    and "registered_voters (snd (VoterLedger_apply_transactions l ts)) = registered_voters l"
  using voter_pass_sum [OF assms]
  by (cases "voter_pass ts (ledger l)"; simp add: VoterLedger_apply_transactions_def)+

lemma VoterLedger_replay_sum:
  assumes "\<forall>ts \<in> set batches. \<forall>t \<in> set ts. states_allowed VoterTransaction_allowed_states t"
      and "voter_counter_sum (ledger l) = Some n"
  shows "voter_counter_sum (ledger (VoterLedger_replay l batches)) = Some n
         \<and> registered_voters (VoterLedger_replay l batches) = registered_voters l"
  using assms
proof (induction batches arbitrary: l)
  case Nil
  then show ?case by simp
next
  case (Cons ts batches)
  obtain e l' where ap: "VoterLedger_apply_transactions l ts = (e, l')"
    by (cases "VoterLedger_apply_transactions l ts")
  from Cons.prems have ts: "\<forall>t \<in> set ts. states_allowed VoterTransaction_allowed_states t"
    by simp
  from VoterLedger_apply_transactions_sum [OF ts Cons.prems(2)] ap
  have l': "voter_counter_sum (ledger l') = Some n" "registered_voters l' = registered_voters l"
    by simp_all
  from Cons.IH [OF _ l'(1)] Cons.prems(1) l'(2) ap show ?case by simp
qed

lemma fold_voter_keys_other:
  "(\<And>i. k \<noteq> VoterKey i) \<Longrightarrow>
   fold (\<lambda>voter d. d(VoterKey (voter_oid voter) \<mapsto> v)) vs d k = d k"
  by (induction vs arbitrary: d) simp_all

lemma VoterLedger_init_sum:
  "voter_counter_sum (ledger (VoterLedger_init vs)) = Some (int (length vs))"
  "registered_voters (VoterLedger_init vs) = length vs"
  by (simp_all add: VoterLedger_init_def Let_def voter_counter_sum_def fold_voter_keys_other
      state_names_distinct)

lemma Transaction_init_states_allowed:
  "Transaction_init cc allowed as_class new_oid now c n p q ts kw = Inr t \<Longrightarrow>
   states_allowed allowed t"
  by (auto simp: Transaction_init_def states_allowed_def Let_def
      split: option.splits if_splits sum.splits)

lemma timestamp_and_sign_states_allowed:
  "timestamp_and_sign now t = Inr t' \<Longrightarrow> states_allowed allowed t \<Longrightarrow> states_allowed allowed t'"
  by (auto simp: timestamp_and_sign_def add_timestamp_def states_allowed_def Let_def
      split: sum.splits)

text \<open>
  C3. In every ledger that initialisation produced and any sequence of
  \<^verbatim>\<open>apply_transactions\<close> calls has written, with transactions the constructor
  accepted, the per-state counters sum to the number of entities recorded at
  initialisation: Created + Issued + Used is the number of ballots, and
  NotVoted + Voted is the number of voters. It holds also after a call that raised.
\<close>

theorem C3_counters_sum_to_total:
  "(VoteLedger_init bs = Inr l \<longrightarrow>
      (\<forall>ts \<in> set batches. \<forall>t \<in> set ts. states_allowed VoteTransaction_allowed_states t) \<longrightarrow>
      vote_counter_sum (ledger (fst (VoteLedger_replay l fl batches))) = Some (int (length bs))
      \<and> total_ballots (fst (VoteLedger_replay l fl batches)) = length bs)
   \<and> ((\<forall>ts \<in> set vbatches. \<forall>t \<in> set ts. states_allowed VoterTransaction_allowed_states t) \<longrightarrow>
      voter_counter_sum (ledger (VoterLedger_replay (VoterLedger_init vs) vbatches))
        = Some (int (length vs))
      \<and> registered_voters (VoterLedger_replay (VoterLedger_init vs) vbatches) = length vs)"
proof (intro conjI impI)
  assume init: "VoteLedger_init bs = Inr l"
    and ok: "\<forall>ts \<in> set batches. \<forall>t \<in> set ts. states_allowed VoteTransaction_allowed_states t"
  from VoteLedger_replay_sum [OF ok VoteLedger_init_sum(1) [OF init], of fl]
    VoteLedger_init_sum(2) [OF init]
  show "vote_counter_sum (ledger (fst (VoteLedger_replay l fl batches))) = Some (int (length bs))"
    and "total_ballots (fst (VoteLedger_replay l fl batches)) = length bs"
    by simp_all
next
  assume ok: "\<forall>ts \<in> set vbatches. \<forall>t \<in> set ts. states_allowed VoterTransaction_allowed_states t"
  from VoterLedger_replay_sum [OF ok VoterLedger_init_sum(1) [of vs]] VoterLedger_init_sum(2) [of vs]
  show "voter_counter_sum (ledger (VoterLedger_replay (VoterLedger_init vs) vbatches))
        = Some (int (length vs))"
    and "registered_voters (VoterLedger_replay (VoterLedger_init vs) vbatches) = length vs"
    by simp_all
qed

theorem C3_counters_sum_to_total_witness:
  "VoteLedger_init [ex_ballot1, ex_ballot2] = Inr ex_vote_ledger
   \<and> states_allowed VoteTransaction_allowed_states ex_issue_tx
   \<and> states_allowed VoteTransaction_allowed_states ex_use_tx
   \<and> vote_counter_sum
        (ledger (fst (VoteLedger_replay ex_vote_ledger Map.empty [[ex_issue_tx], [ex_use_tx]])))
       = Some 2
   \<and> states_allowed VoterTransaction_allowed_states ex_voter_tx
   \<and> voter_counter_sum
        (ledger (VoterLedger_replay (VoterLedger_init [ex_voter1, ex_voter2]) [[ex_voter_tx]]))
       = Some 2"
proof -
  note init = ex_vote_ledger_init
  have a: "states_allowed VoteTransaction_allowed_states ex_issue_tx"
    "states_allowed VoteTransaction_allowed_states ex_use_tx"
    "states_allowed VoterTransaction_allowed_states ex_voter_tx"
    by code_simp+
  from a have ok: "\<forall>ts \<in> set [[ex_issue_tx], [ex_use_tx]].
         \<forall>t \<in> set ts. states_allowed VoteTransaction_allowed_states t"
    by simp
  from a have vok: "\<forall>ts \<in> set [[ex_voter_tx]].
         \<forall>t \<in> set ts. states_allowed VoterTransaction_allowed_states t"
    by simp
  from C3_counters_sum_to_total [of "[ex_ballot1, ex_ballot2]" ex_vote_ledger
      "[[ex_issue_tx], [ex_use_tx]]" Map.empty "[[ex_voter_tx]]" "[ex_voter1, ex_voter2]"]
    init ok vok a
  show ?thesis by simp
qed

subsection \<open>Single turns of the vote ledger's loop\<close>

lemma vote_step_skip:
  "iteration = 1 \<Longrightarrow> fl (tx_oid t) = Some False \<Longrightarrow> vote_step iteration t (d, fl) = (None, d, fl)"
  by (simp add: vote_step_def)

lemma vote_step_unset:
  "iteration = 1 \<Longrightarrow> fl (tx_oid t) = None \<Longrightarrow>
   vote_step iteration t (d, fl) = (Some AttributeError, d, fl)"
  by (simp add: vote_step_def)

lemma vote_step_missing:
  assumes "iteration \<noteq> 1 \<or> fl (tx_oid t) = Some True"
      and "d (BallotKey (ballot_oid (content t))) = None"
  shows "vote_step iteration t (d, fl) = (Some KeyError, d, fl)"
  using assms by (auto simp: vote_step_def)

lemma vote_step_defer:
  assumes "iteration \<noteq> 1 \<or> fl (tx_oid t) = Some True"
      and "d (BallotKey (ballot_oid (content t))) = Some v"
      and "v \<noteq> StrVal (previous_state t)"
  shows "vote_step iteration t (d, fl) = (None, d, fl(tx_oid t \<mapsto> True))"
  using assms by (auto simp: vote_step_def)

lemma vote_step_apply:
  assumes "iteration \<noteq> 1 \<or> fl (tx_oid t) = Some True"
      and "d (BallotKey (ballot_oid (content t))) = Some (StrVal (previous_state t))"
  shows "vote_step iteration t (d, fl) =
           (case update_ballot t (StrVal (previous_state t)) d of
              (Some e, d') \<Rightarrow> (Some e, d', fl)
            | (None, d') \<Rightarrow> (None, d', fl(tx_oid t \<mapsto> False)))"
  using assms by (auto simp: vote_step_def)

lemma key_of_val_not_object [simp]:
  "key_of_val v \<noteq> BallotKey i" "key_of_val v \<noteq> ChoiceKey i" "key_of_val v \<noteq> VoterKey i"
  "BallotKey i \<noteq> key_of_val v" "ChoiceKey i \<noteq> key_of_val v" "VoterKey i \<noteq> key_of_val v"
  by (cases v; simp)+

lemma update_ballot_ballot_key:
  "snd (update_ballot t old d) (BallotKey i) =
     (if i = ballot_oid (content t) then Some (StrVal (new_state t)) else d (BallotKey i))"
  by (simp add: update_ballot_def Let_def update_candidate_votes_other
      split: option.splits val.splits)

lemma vote_step_defer':
  assumes "iteration \<noteq> 1 \<or> fl (tx_oid t) = Some True"
      and "d (BallotKey (ballot_oid (content t))) \<noteq> None"
      and "d (BallotKey (ballot_oid (content t))) \<noteq> Some (StrVal (previous_state t))"
  shows "vote_step iteration t (d, fl) = (None, d, fl(tx_oid t \<mapsto> True))"
  using assms by (auto simp: vote_step_def)

lemma order_insensitive_passes:
  assumes b: "ballot_oid (content t1) = ballot_oid (content t2)"
      and e1: "previous_state t1 = CREATED" "new_state t1 = ISSUED"
      and e2: "previous_state t2 = ISSUED" "new_state t2 = USED"
      and ne: "tx_oid t1 \<noteq> tx_oid t2"
  shows "fst (vote_passes [t1, t2] (d, fl)) = fst (vote_passes [t2, t1] (d, fl))
         \<and> fst (snd (vote_passes [t1, t2] (d, fl))) = fst (snd (vote_passes [t2, t1] (d, fl)))
         \<and> (fst (vote_passes [t1, t2] (d, fl)) = None \<longrightarrow>
              snd (snd (vote_passes [t1, t2] (d, fl))) = snd (snd (vote_passes [t2, t1] (d, fl))))"
proof -
  let ?k = "BallotKey (ballot_oid (content t2))"
  note [simp] = vote_passes_def b e1 e2 state_names_distinct
  have ne': "tx_oid t2 \<noteq> tx_oid t1" using ne by simp
  show ?thesis
  proof (cases "d ?k")
    case None
    then show ?thesis
      by (simp add: vote_step_missing)
  next
    case (Some v)
    consider (created) "v = StrVal CREATED" | (issued) "v = StrVal ISSUED"
      | (other) "v \<noteq> StrVal CREATED" "v \<noteq> StrVal ISSUED"
      by blast
    then show ?thesis
    proof cases
      case created
      obtain r1 d1 where u1: "update_ballot t1 (StrVal CREATED) d = (r1, d1)"
        by (cases "update_ballot t1 (StrVal CREATED) d")
      have d1k: "d1 ?k = Some (StrVal ISSUED)"
        using update_ballot_ballot_key [of t1 "StrVal CREATED" d "ballot_oid (content t2)"] u1
        by simp
      obtain r2 d2 where u2: "update_ballot t2 (StrVal ISSUED) d1 = (r2, d2)"
        by (cases "update_ballot t2 (StrVal ISSUED) d1")
      have s1: "\<And>f. vote_step 0 t1 (d, f) =
                  (case r1 of Some e \<Rightarrow> (Some e, d1, f) | None \<Rightarrow> (None, d1, f(tx_oid t1 \<mapsto> False)))"
        using vote_step_apply [of 0 _ t1 d] Some created u1 by (simp split: option.splits)
      have s2: "\<And>f. vote_step 0 t2 (d, f) = (None, d, f(tx_oid t2 \<mapsto> True))"
        using Some created by (simp add: vote_step_defer')
      have s3: "\<And>i f. i = 0 \<or> f (tx_oid t2) = Some True \<Longrightarrow> vote_step i t2 (d1, f) =
                  (case r2 of Some e \<Rightarrow> (Some e, d2, f) | None \<Rightarrow> (None, d2, f(tx_oid t2 \<mapsto> False)))"
        using vote_step_apply [of _ _ t2 d1] d1k u2 by (auto split: option.splits)
      show ?thesis
        using ne ne'
        by (cases r1; cases r2; simp add: s1 s2 s3 vote_step_skip fun_upd_twist)
    next
      case issued
      obtain r2 d2 where u2: "update_ballot t2 (StrVal ISSUED) d = (r2, d2)"
        by (cases "update_ballot t2 (StrVal ISSUED) d")
      have d2k: "d2 ?k = Some (StrVal USED)"
        using update_ballot_ballot_key [of t2 "StrVal ISSUED" d "ballot_oid (content t2)"] u2
        by simp
      have s1: "\<And>f. vote_step 0 t1 (d, f) = (None, d, f(tx_oid t1 \<mapsto> True))"
        using Some issued by (simp add: vote_step_defer')
      have s2: "\<And>f. vote_step 0 t2 (d, f) =
                  (case r2 of Some e \<Rightarrow> (Some e, d2, f) | None \<Rightarrow> (None, d2, f(tx_oid t2 \<mapsto> False)))"
        using vote_step_apply [of 0 _ t2 d] Some issued u2 by (simp split: option.splits)
      have s3: "\<And>i f. i = 0 \<or> f (tx_oid t1) = Some True \<Longrightarrow>
                  vote_step i t1 (d2, f) = (None, d2, f(tx_oid t1 \<mapsto> True))"
        using d2k by (auto intro!: vote_step_defer')
      show ?thesis
        using ne ne'
        by (cases r2; simp add: s1 s2 s3 vote_step_skip fun_upd_twist)
    next
      case other
      have s: "\<And>i f t. t = t1 \<or> t = t2 \<Longrightarrow> i = 0 \<or> f (tx_oid t) = Some True \<Longrightarrow>
                  vote_step i t (d, f) = (None, d, f(tx_oid t \<mapsto> True))"
        using Some other by (auto intro!: vote_step_defer')
      show ?thesis
        using ne ne' by (simp add: s fun_upd_twist)
    qed
  qed
qed

text \<open>
  C5. For every vote ledger and the two edges Created to Issued and Issued to Used of
  one ballot, carried by two transaction objects, replaying the two as one batch in
  either order gives the same outcome and the same ledger (per-ballot state, counters
  and tallies); when no exception is raised the marks left on the two transactions
  agree as well.
\<close>

theorem C5_order_insensitive:
  assumes "ballot_oid (content t1) = ballot_oid (content t2)"
      and "previous_state t1 = CREATED" and "new_state t1 = ISSUED"
      and "previous_state t2 = ISSUED" and "new_state t2 = USED"
      and "tx_oid t1 \<noteq> tx_oid t2"
  shows "fst (VoteLedger_apply_transactions l fl [t1, t2])
           = fst (VoteLedger_apply_transactions l fl [t2, t1])
         \<and> fst (snd (VoteLedger_apply_transactions l fl [t1, t2]))
           = fst (snd (VoteLedger_apply_transactions l fl [t2, t1]))
         \<and> (fst (VoteLedger_apply_transactions l fl [t1, t2]) = None \<longrightarrow>
              snd (snd (VoteLedger_apply_transactions l fl [t1, t2]))
              = snd (snd (VoteLedger_apply_transactions l fl [t2, t1])))"
proof -
  obtain ea da fa where a: "vote_passes [t1, t2] (ledger l, fl) = (ea, da, fa)"
    by (cases "vote_passes [t1, t2] (ledger l, fl)") auto
  obtain eb db fb where b: "vote_passes [t2, t1] (ledger l, fl) = (eb, db, fb)"
    by (cases "vote_passes [t2, t1] (ledger l, fl)") auto
  from order_insensitive_passes [OF assms, of "ledger l" fl] a b
  show ?thesis
    by (simp add: VoteLedger_apply_transactions_def)
qed

theorem C5_order_insensitive_witness:
  "ballot_oid (content ex_issue_tx) = ballot_oid (content ex_use_tx)
   \<and> previous_state ex_issue_tx = CREATED \<and> new_state ex_issue_tx = ISSUED
   \<and> previous_state ex_use_tx = ISSUED \<and> new_state ex_use_tx = USED
   \<and> tx_oid ex_issue_tx \<noteq> tx_oid ex_use_tx
   \<and> fst (VoteLedger_apply_transactions ex_vote_ledger Map.empty [ex_issue_tx, ex_use_tx]) = None
   \<and> ledger (fst (snd (VoteLedger_apply_transactions ex_vote_ledger Map.empty
                         [ex_use_tx, ex_issue_tx]))) (BallotKey 1) = Some (StrVal USED)
   \<and> fst (snd (VoteLedger_apply_transactions ex_vote_ledger Map.empty [ex_issue_tx, ex_use_tx]))
       = fst (snd (VoteLedger_apply_transactions ex_vote_ledger Map.empty [ex_use_tx, ex_issue_tx]))
   \<and> snd (snd (VoteLedger_apply_transactions ex_vote_ledger Map.empty [ex_issue_tx, ex_use_tx]))
       = snd (snd (VoteLedger_apply_transactions ex_vote_ledger Map.empty [ex_use_tx, ex_issue_tx]))"
proof -
  have h: "ballot_oid (content ex_issue_tx) = ballot_oid (content ex_use_tx)"
    "previous_state ex_issue_tx = CREATED" "new_state ex_issue_tx = ISSUED"
    "previous_state ex_use_tx = ISSUED" "new_state ex_use_tx = USED"
    "tx_oid ex_issue_tx \<noteq> tx_oid ex_use_tx"
    by code_simp+
  have r: "fst (VoteLedger_apply_transactions ex_vote_ledger Map.empty [ex_issue_tx, ex_use_tx]) = None"
    "ledger (fst (snd (VoteLedger_apply_transactions ex_vote_ledger Map.empty
                         [ex_use_tx, ex_issue_tx]))) (BallotKey 1) = Some (StrVal USED)"
    by code_simp+
  from C5_order_insensitive [OF h, of ex_vote_ledger Map.empty] h r
  show ?thesis by simp
qed

subsection \<open>Copies of a stale transaction\<close>

lemma vote_step_cases:
  obtains (unset) "iteration = 1" "fl (tx_oid t) = None"
  | (skip) "iteration = 1" "fl (tx_oid t) = Some False"
  | (missing) "iteration \<noteq> 1 \<or> fl (tx_oid t) = Some True"
      "d (BallotKey (ballot_oid (content t))) = None"
  | (deferred) "iteration \<noteq> 1 \<or> fl (tx_oid t) = Some True"
      "d (BallotKey (ballot_oid (content t))) \<noteq> None"
      "d (BallotKey (ballot_oid (content t))) \<noteq> Some (StrVal (previous_state t))"
  | (applied) "iteration \<noteq> 1 \<or> fl (tx_oid t) = Some True"
      "d (BallotKey (ballot_oid (content t))) = Some (StrVal (previous_state t))"
  by (cases "fl (tx_oid t)") auto

lemma vote_step_stale_copy:
  assumes "vote_stale d t" and "iteration = 1 \<longrightarrow> fl (tx_oid t) = Some True"
  shows "vote_step iteration t (d, fl) = (None, d, fl(tx_oid t \<mapsto> True))"
proof -
  from assms(1) have "d (BallotKey (ballot_oid (content t))) \<noteq> None"
    "d (BallotKey (ballot_oid (content t))) \<noteq> Some (StrVal (previous_state t))"
    by (auto simp: vote_stale_def Let_def state_names_distinct)
  with assms(2) show ?thesis
    by (intro vote_step_defer') auto
qed

lemma vote_step_other_flags:
  assumes "tx_oid x \<noteq> k" and "\<forall>i. i \<noteq> k \<longrightarrow> fl i = fl2 i"
      and "vote_step iteration x (d, fl) = (e, d', f)"
  shows "\<exists>f2. vote_step iteration x (d, fl2) = (e, d', f2)
              \<and> (\<forall>i. i \<noteq> k \<longrightarrow> f i = f2 i) \<and> f k = fl k"
proof -
  from assms(1,2) have eq: "fl2 (tx_oid x) = fl (tx_oid x)" by simp
  have same: "\<And>b. \<forall>i. i \<noteq> k \<longrightarrow> (fl(tx_oid x \<mapsto> b)) i = (fl2(tx_oid x \<mapsto> b)) i"
    using assms(2) by simp
  have keep: "\<And>b. (fl(tx_oid x \<mapsto> b)) k = fl k"
    using assms(1) by simp
  show ?thesis
  proof (cases rule: vote_step_cases [where iteration = iteration and fl = fl and t = x and d = d])
    case unset
    from unset eq have "vote_step iteration x (d, fl2) = (Some AttributeError, d, fl2)"
      by (simp add: vote_step_unset)
    moreover from unset assms(3) have "e = Some AttributeError" "d' = d" "f = fl"
      by (simp_all add: vote_step_unset)
    ultimately show ?thesis using assms(2) by blast
  next
    case skip
    from skip eq have "vote_step iteration x (d, fl2) = (None, d, fl2)"
      by (simp add: vote_step_skip)
    moreover from skip assms(3) have "e = None" "d' = d" "f = fl"
      by (simp_all add: vote_step_skip)
    ultimately show ?thesis using assms(2) by blast
  next
    case missing
    from missing eq have "vote_step iteration x (d, fl2) = (Some KeyError, d, fl2)"
      by (intro vote_step_missing) auto
    moreover from missing assms(3) have "e = Some KeyError" "d' = d" "f = fl"
      by (simp_all add: vote_step_missing)
    ultimately show ?thesis using assms(2) by blast
  next
    case deferred
    from deferred eq have "vote_step iteration x (d, fl2) = (None, d, fl2(tx_oid x \<mapsto> True))"
      by (intro vote_step_defer') auto
    moreover from deferred assms(3) have "e = None" "d' = d" "f = fl(tx_oid x \<mapsto> True)"
      by (simp_all add: vote_step_defer')
    ultimately show ?thesis using same keep by blast
  next
    case applied
    obtain r d1 where u: "update_ballot x (StrVal (previous_state x)) d = (r, d1)"
      by (cases "update_ballot x (StrVal (previous_state x)) d")
    from applied eq have a2: "iteration \<noteq> 1 \<or> fl2 (tx_oid x) = Some True" by simp
    note s1 = vote_step_apply [of iteration fl x d, OF applied]
    note s2 = vote_step_apply [of iteration fl2 x d, OF a2 applied(2)]
    show ?thesis
    proof (cases r)
      case None
      with s2 u have "vote_step iteration x (d, fl2) = (None, d1, fl2(tx_oid x \<mapsto> False))"
        by simp
      moreover from None s1 u assms(3) have "e = None" "d' = d1" "f = fl(tx_oid x \<mapsto> False)"
        by simp_all
      ultimately show ?thesis using same keep by blast
    next
      case (Some err)
      with s2 u have "vote_step iteration x (d, fl2) = (Some err, d1, fl2)"
        by simp
      moreover from Some s1 u assms(3) have "e = Some err" "d' = d1" "f = fl"
        by simp_all
      ultimately show ?thesis using assms(2) by blast
    qed
  qed
qed

lemma vote_step_keeps_stale:
  assumes "legal_vote_edge x" and "vote_stale d t"
      and "vote_step iteration x (d, fl) = (e, d', f)"
  shows "vote_stale d' t"
proof (cases rule: vote_step_cases [where iteration = iteration and fl = fl and t = x and d = d])
  case unset
  with assms show ?thesis by (simp add: vote_step_unset)
next
  case skip
  with assms show ?thesis by (simp add: vote_step_skip)
next
  case missing
  with assms show ?thesis by (simp add: vote_step_missing)
next
  case deferred
  with assms show ?thesis by (simp add: vote_step_defer')
next
  case applied
  obtain r d1 where u: "update_ballot x (StrVal (previous_state x)) d = (r, d1)"
    by (cases "update_ballot x (StrVal (previous_state x)) d")
  have key: "\<And>i. d1 (BallotKey i) =
     (if i = ballot_oid (content x) then Some (StrVal (new_state x)) else d (BallotKey i))"
    using update_ballot_ballot_key [of x "StrVal (previous_state x)" d] u by simp
  from assms(3) u have "d' = d1"
    by (cases r) (simp_all add: vote_step_apply [of iteration fl x d, OF applied])
  with assms(1,2) applied(2) show ?thesis
    by (auto simp: vote_stale_def Let_def key legal_vote_edge_def state_names_distinct)
qed

lemma vote_pass_stale_copies:
  assumes "\<forall>x \<in> set txs. legal_vote_edge x"
      and "\<forall>x \<in> set txs. tx_oid x = tx_oid t \<longrightarrow> x = t"
      and "vote_stale d t"
      and "\<forall>i. i \<noteq> tx_oid t \<longrightarrow> fl i = fl2 i"
      and "iteration = 1 \<longrightarrow> t \<in> set txs \<longrightarrow> fl (tx_oid t) = Some True"
  shows "\<exists>e d' f f2.
           vote_pass iteration txs (d, fl) = (e, d', f)
           \<and> vote_pass iteration (without t txs) (d, fl2) = (e, d', f2)
           \<and> (\<forall>i. i \<noteq> tx_oid t \<longrightarrow> f i = f2 i)
           \<and> vote_stale d' t
           \<and> (e = None \<longrightarrow> t \<in> set txs \<or> fl (tx_oid t) = Some True \<longrightarrow>
                f (tx_oid t) = Some True)"
  using assms
proof (induction txs arbitrary: d fl fl2)
  case Nil
  then show ?case by (simp add: without_def)
next
  case (Cons x txs)
  have p1: "\<forall>x \<in> set txs. legal_vote_edge x" using Cons.prems(1) by simp
  have p2: "\<forall>x \<in> set txs. tx_oid x = tx_oid t \<longrightarrow> x = t" using Cons.prems(2) by simp
  show ?case
  proof (cases "tx_oid x = tx_oid t")
    case True
    with Cons.prems(2) have x: "x = t" by simp
    have flag: "iteration = 1 \<longrightarrow> fl (tx_oid t) = Some True"
      using Cons.prems(5) x by simp
    have step: "vote_step iteration t (d, fl) = (None, d, fl(tx_oid t \<mapsto> True))"
      using Cons.prems(3) flag by (rule vote_step_stale_copy)
    have agree: "\<forall>i. i \<noteq> tx_oid t \<longrightarrow> (fl(tx_oid t \<mapsto> True)) i = fl2 i"
      using Cons.prems(4) by simp
    have p5: "iteration = 1 \<longrightarrow> t \<in> set txs \<longrightarrow> (fl(tx_oid t \<mapsto> True)) (tx_oid t) = Some True"
      by simp
    from Cons.IH [OF p1 p2 Cons.prems(3) agree p5]
    obtain e d' f f2 where
      ih: "vote_pass iteration txs (d, fl(tx_oid t \<mapsto> True)) = (e, d', f)"
          "vote_pass iteration (without t txs) (d, fl2) = (e, d', f2)"
          "\<forall>i. i \<noteq> tx_oid t \<longrightarrow> f i = f2 i" "vote_stale d' t"
          "e = None \<longrightarrow> t \<in> set txs \<or> (fl(tx_oid t \<mapsto> True)) (tx_oid t) = Some True \<longrightarrow>
             f (tx_oid t) = Some True"
      by blast
    from ih(5) have kept: "e = None \<longrightarrow> f (tx_oid t) = Some True" by simp
    have "vote_pass iteration (x # txs) (d, fl) = (e, d', f)"
      using step ih(1) x by simp
    moreover have "vote_pass iteration (without t (x # txs)) (d, fl2) = (e, d', f2)"
      using ih(2) x by (simp add: without_def)
    ultimately show ?thesis using ih(3,4) kept by blast
  next
    case False
    obtain e1 d1 f1 where st: "vote_step iteration x (d, fl) = (e1, d1, f1)"
      by (cases "vote_step iteration x (d, fl)") auto
    from vote_step_other_flags [OF False Cons.prems(4) st]
    obtain f2' where st2: "vote_step iteration x (d, fl2) = (e1, d1, f2')"
      and agree: "\<forall>i. i \<noteq> tx_oid t \<longrightarrow> f1 i = f2' i" and keep: "f1 (tx_oid t) = fl (tx_oid t)"
      by blast
    have stale1: "vote_stale d1 t"
      using vote_step_keeps_stale [OF _ Cons.prems(3) st] Cons.prems(1) by simp
    have xt: "x \<noteq> t" using False by auto
    have wo: "without t (x # txs) = x # without t txs"
      using False by (simp add: without_def)
    show ?thesis
    proof (cases e1)
      case None
      have flag: "iteration = 1 \<longrightarrow> t \<in> set txs \<longrightarrow> f1 (tx_oid t) = Some True"
        using Cons.prems(5) keep by simp
      from Cons.IH [OF p1 p2 stale1 agree flag]
      obtain e d' f f2 where
        ih: "vote_pass iteration txs (d1, f1) = (e, d', f)"
        "vote_pass iteration (without t txs) (d1, f2') = (e, d', f2)"
        "\<forall>i. i \<noteq> tx_oid t \<longrightarrow> f i = f2 i" "vote_stale d' t"
        "e = None \<longrightarrow> t \<in> set txs \<or> f1 (tx_oid t) = Some True \<longrightarrow> f (tx_oid t) = Some True"
        by blast
      have "vote_pass iteration (x # txs) (d, fl) = (e, d', f)"
        using st None ih(1) by simp
      moreover have "vote_pass iteration (without t (x # txs)) (d, fl2) = (e, d', f2)"
        using st2 None ih(2) wo by simp
      moreover have "e = None \<longrightarrow> t \<in> set (x # txs) \<or> fl (tx_oid t) = Some True \<longrightarrow>
                f (tx_oid t) = Some True"
        using ih(5) keep xt by auto
      ultimately show ?thesis using ih(3,4) by blast
    next
      case (Some err)
      have "vote_pass iteration (x # txs) (d, fl) = (Some err, d1, f1)"
        using st Some by simp
      moreover have "vote_pass iteration (without t (x # txs)) (d, fl2) = (Some err, d1, f2')"
        using st2 Some wo by simp
      ultimately show ?thesis using agree stale1 by blast
    qed
  qed
qed

lemma vote_passes_stale_copies:
  assumes "\<forall>x \<in> set txs. legal_vote_edge x"
      and "\<forall>x \<in> set txs. tx_oid x = tx_oid t \<longrightarrow> x = t"
      and "vote_stale d t"
  shows "\<exists>e d' f f2.
           vote_passes txs (d, fl) = (e, d', f)
           \<and> vote_passes (without t txs) (d, fl) = (e, d', f2)
           \<and> (\<forall>i. i \<noteq> tx_oid t \<longrightarrow> f i = f2 i)
           \<and> vote_stale d' t"
proof -
  have agree0: "\<forall>i. i \<noteq> tx_oid t \<longrightarrow> fl i = fl i" by simp
  have it0: "(0::nat) = 1 \<longrightarrow> t \<in> set txs \<longrightarrow> fl (tx_oid t) = Some True" by simp
  from vote_pass_stale_copies [OF assms agree0 it0]
  obtain e0 d0 f0 g0 where
    p0: "vote_pass 0 txs (d, fl) = (e0, d0, f0)"
        "vote_pass 0 (without t txs) (d, fl) = (e0, d0, g0)"
        "\<forall>i. i \<noteq> tx_oid t \<longrightarrow> f0 i = g0 i" "vote_stale d0 t"
        "e0 = None \<longrightarrow> t \<in> set txs \<or> fl (tx_oid t) = Some True \<longrightarrow> f0 (tx_oid t) = Some True"
    by blast
  show ?thesis
  proof (cases e0)
    case None
    have it1: "(1::nat) = 1 \<longrightarrow> t \<in> set txs \<longrightarrow> f0 (tx_oid t) = Some True"
      using p0(5) None by simp
    from vote_pass_stale_copies [OF assms(1,2) p0(4) p0(3) it1]
    obtain e1 d1 f1 g1 where
      p1: "vote_pass 1 txs (d0, f0) = (e1, d1, f1)"
          "vote_pass 1 (without t txs) (d0, g0) = (e1, d1, g1)"
          "\<forall>i. i \<noteq> tx_oid t \<longrightarrow> f1 i = g1 i" "vote_stale d1 t"
      by blast
    have "vote_passes txs (d, fl) = (e1, d1, f1)"
      using p0(1) None p1(1) by (simp add: vote_passes_def)
    moreover have "vote_passes (without t txs) (d, fl) = (e1, d1, g1)"
      using p0(2) None p1(2) by (simp add: vote_passes_def)
    ultimately show ?thesis using p1(3,4) by blast
  next
    case (Some err)
    have "vote_passes txs (d, fl) = (Some err, d0, f0)"
      using p0(1) Some by (simp add: vote_passes_def)
    moreover have "vote_passes (without t txs) (d, fl) = (Some err, d0, g0)"
      using p0(2) Some by (simp add: vote_passes_def)
    ultimately show ?thesis using p0(3,4) by blast
  qed
qed

lemma voter_step_stale_copy:
  "voter_stale d t \<Longrightarrow> voter_step t d = (None, d)"
  by (simp add: voter_step_def voter_stale_def Let_def state_names_distinct)

lemma voter_step_voter_key:
  "snd (voter_step x d) (VoterKey i) =
     (if i = voter_oid (content x) \<and> d (VoterKey i) = Some (StrVal (previous_state x))
      then Some (StrVal (new_state x)) else d (VoterKey i))"
  by (auto simp: voter_step_def Let_def split: option.splits val.splits)

lemma voter_step_keeps_stale:
  assumes "legal_voter_edge x" and "voter_stale d t"
  shows "voter_stale (snd (voter_step x d)) t"
  using assms
  by (auto simp: voter_stale_def legal_voter_edge_def voter_step_voter_key state_names_distinct)

lemma voter_pass_stale_copies:
  assumes "\<forall>x \<in> set txs. legal_voter_edge x"
      and "\<forall>x \<in> set txs. tx_oid x = tx_oid t \<longrightarrow> x = t"
      and "voter_stale d t"
  shows "voter_pass txs d = voter_pass (without t txs) d"
  using assms
proof (induction txs arbitrary: d)
  case Nil
  then show ?case by (simp add: without_def)
next
  case (Cons x txs)
  have p1: "\<forall>x \<in> set txs. legal_voter_edge x" using Cons.prems(1) by simp
  have p2: "\<forall>x \<in> set txs. tx_oid x = tx_oid t \<longrightarrow> x = t" using Cons.prems(2) by simp
  show ?case
  proof (cases "tx_oid x = tx_oid t")
    case True
    with Cons.prems(2) have "x = t" by simp
    with True Cons.IH [OF p1 p2 Cons.prems(3)] Cons.prems(3) show ?thesis
      by (simp add: without_def voter_step_stale_copy)
  next
    case False
    obtain e1 d1 where st: "voter_step x d = (e1, d1)"
      by (cases "voter_step x d")
    have "voter_stale d1 t"
      using voter_step_keeps_stale [of x d t] Cons.prems(1,3) st by simp
    from Cons.IH [OF p1 p2 this] st False show ?thesis
      by (cases e1) (simp_all add: without_def)
  qed
qed

lemma vote_step_applied_is_stale:
  assumes "legal_vote_edge t"
      and "d (BallotKey (ballot_oid (content t))) = Some (StrVal (previous_state t))"
      and "iteration \<noteq> 1 \<or> fl (tx_oid t) = Some True"
  shows "vote_stale (fst (snd (vote_step iteration t (d, fl)))) t"
proof -
  obtain r d1 where u: "update_ballot t (StrVal (previous_state t)) d = (r, d1)"
    by (cases "update_ballot t (StrVal (previous_state t)) d")
  have key: "d1 (BallotKey (ballot_oid (content t))) = Some (StrVal (new_state t))"
    using update_ballot_ballot_key [of t "StrVal (previous_state t)" d "ballot_oid (content t)"] u
    by simp
  have "fst (snd (vote_step iteration t (d, fl))) = d1"
    using u by (cases r) (simp_all add: vote_step_apply [of iteration fl t d, OF assms(3,2)])
  with key assms(1) show ?thesis
    by (auto simp: vote_stale_def legal_vote_edge_def Let_def state_names_distinct)
qed

lemma voter_step_applied_is_stale:
  assumes "legal_voter_edge t"
      and "d (VoterKey (voter_oid (content t))) = Some (StrVal (previous_state t))"
  shows "voter_stale (snd (voter_step t d)) t"
  using assms
  by (simp add: voter_stale_def legal_voter_edge_def voter_step_voter_key)

text \<open>
  C4, as amended. For every ledger, every batch of legal edges and every transaction
  of the batch that is stale in the ledger (its entity has already left the
  transaction's previous state, as it has once the transaction was applied), the batch
  gives the same outcome and the same ledger as the batch without the copies of that
  transaction: a copy is deferred in every pass and changes no state, counter or
  tally. The marks on the other transactions agree too. This holds for the vote
  ledger and for the voter ledger, and the turn of the loop that applies a legal
  transaction leaves it stale.
\<close>

theorem C4_stale_copies_ignored:
  "((\<forall>x \<in> set txs. legal_vote_edge x) \<longrightarrow> (\<forall>x \<in> set txs. tx_oid x = tx_oid t \<longrightarrow> x = t) \<longrightarrow>
      vote_stale (ledger l) t \<longrightarrow>
        fst (VoteLedger_apply_transactions l fl txs)
          = fst (VoteLedger_apply_transactions l fl (without t txs))
        \<and> fst (snd (VoteLedger_apply_transactions l fl txs))
          = fst (snd (VoteLedger_apply_transactions l fl (without t txs)))
        \<and> (\<forall>i. i \<noteq> tx_oid t \<longrightarrow>
              snd (snd (VoteLedger_apply_transactions l fl txs)) i
              = snd (snd (VoteLedger_apply_transactions l fl (without t txs))) i))
   \<and> ((\<forall>x \<in> set vtxs. legal_voter_edge x) \<longrightarrow> (\<forall>x \<in> set vtxs. tx_oid x = tx_oid vt \<longrightarrow> x = vt) \<longrightarrow>
      voter_stale (ledger vl) vt \<longrightarrow>
        VoterLedger_apply_transactions vl vtxs = VoterLedger_apply_transactions vl (without vt vtxs))
   \<and> (legal_vote_edge t \<longrightarrow>
        d (BallotKey (ballot_oid (content t))) = Some (StrVal (previous_state t)) \<longrightarrow>
        iteration \<noteq> 1 \<or> fl (tx_oid t) = Some True \<longrightarrow>
        vote_stale (fst (snd (vote_step iteration t (d, fl)))) t)
   \<and> (legal_voter_edge vt \<longrightarrow>
        vd (VoterKey (voter_oid (content vt))) = Some (StrVal (previous_state vt)) \<longrightarrow>
        voter_stale (snd (voter_step vt vd)) vt)"
proof (intro conjI impI)
  assume a: "\<forall>x \<in> set txs. legal_vote_edge x" "\<forall>x \<in> set txs. tx_oid x = tx_oid t \<longrightarrow> x = t"
    "vote_stale (ledger l) t"
  from vote_passes_stale_copies [OF a, of fl]
  obtain e d' f f2 where
    r: "vote_passes txs (ledger l, fl) = (e, d', f)"
       "vote_passes (without t txs) (ledger l, fl) = (e, d', f2)"
       "\<forall>i. i \<noteq> tx_oid t \<longrightarrow> f i = f2 i"
    by blast
  from r show "fst (VoteLedger_apply_transactions l fl txs)
          = fst (VoteLedger_apply_transactions l fl (without t txs))"
    by (simp add: VoteLedger_apply_transactions_def)
  from r show "fst (snd (VoteLedger_apply_transactions l fl txs))
          = fst (snd (VoteLedger_apply_transactions l fl (without t txs)))"
    by (simp add: VoteLedger_apply_transactions_def)
  from r show "\<forall>i. i \<noteq> tx_oid t \<longrightarrow>
              snd (snd (VoteLedger_apply_transactions l fl txs)) i
              = snd (snd (VoteLedger_apply_transactions l fl (without t txs))) i"
    by (simp add: VoteLedger_apply_transactions_def)
next
  assume a: "\<forall>x \<in> set vtxs. legal_voter_edge x" "\<forall>x \<in> set vtxs. tx_oid x = tx_oid vt \<longrightarrow> x = vt"
    "voter_stale (ledger vl) vt"
  from voter_pass_stale_copies [OF a]
  show "VoterLedger_apply_transactions vl vtxs = VoterLedger_apply_transactions vl (without vt vtxs)"
    by (simp add: VoterLedger_apply_transactions_def)
next
  assume "legal_vote_edge t"
    "d (BallotKey (ballot_oid (content t))) = Some (StrVal (previous_state t))"
    "iteration \<noteq> 1 \<or> fl (tx_oid t) = Some True"
  then show "vote_stale (fst (snd (vote_step iteration t (d, fl)))) t"
    by (rule vote_step_applied_is_stale)
next
  assume "legal_voter_edge vt"
    "vd (VoterKey (voter_oid (content vt))) = Some (StrVal (previous_state vt))"
  then show "voter_stale (snd (voter_step vt vd)) vt"
    by (rule voter_step_applied_is_stale)
qed

text \<open>
  The claim as stated, for every transaction, fails: the constructor accepts a
  transaction from Created to Created, whose precondition still holds after it was
  applied, so a second copy is applied again and the tally of X goes from 1 to 2.
\<close>

theorem C4_counterexample:
  "VoteTransaction_init 33 ex_now (BallotObj ex_ballot1_X) ex_generator
       CREATED CREATED False None = Inr ex_loop_tx
   \<and> fst ex_after_loop = None
   \<and> snd (snd ex_after_loop) (tx_oid ex_loop_tx) = Some False
   \<and> ledger (fst (snd ex_after_loop)) (ChoiceKey 10) = Some (IntVal 1)
   \<and> ledger (fst (snd (VoteLedger_apply_transactions (fst (snd ex_after_loop))
                         (snd (snd ex_after_loop)) [ex_loop_tx]))) (ChoiceKey 10)
       = Some (IntVal 2)
   \<and> ledger (fst (snd (VoteLedger_apply_transactions (fst (snd ex_after_loop))
                         (snd (snd ex_after_loop)) []))) (ChoiceKey 10)
       = Some (IntVal 1)
   \<and> fst (snd (VoteLedger_apply_transactions (fst (snd ex_after_loop))
                 (snd (snd ex_after_loop)) [ex_loop_tx]))
       \<noteq> fst (snd (VoteLedger_apply_transactions (fst (snd ex_after_loop))
                 (snd (snd ex_after_loop)) []))"
proof -
  note a = ex_loop_tx_constructed
  have b: "fst ex_after_loop = None"
    "snd (snd ex_after_loop) (tx_oid ex_loop_tx) = Some False"
    "ledger (fst (snd ex_after_loop)) (ChoiceKey 10) = Some (IntVal 1)"
    by code_simp+
  have c: "ledger (fst (snd (VoteLedger_apply_transactions (fst (snd ex_after_loop))
                         (snd (snd ex_after_loop)) [ex_loop_tx]))) (ChoiceKey 10)
       = Some (IntVal 2)"
    by code_simp
  have d: "ledger (fst (snd (VoteLedger_apply_transactions (fst (snd ex_after_loop))
                         (snd (snd ex_after_loop)) []))) (ChoiceKey 10)
       = Some (IntVal 1)"
    by code_simp
  from c d have "fst (snd (VoteLedger_apply_transactions (fst (snd ex_after_loop))
                 (snd (snd ex_after_loop)) [ex_loop_tx]))
       \<noteq> fst (snd (VoteLedger_apply_transactions (fst (snd ex_after_loop))
                 (snd (snd ex_after_loop)) []))"
    by auto
  with a b c d show ?thesis by blast
qed

theorem C4_stale_copies_ignored_witness:
  "legal_vote_edge ex_issue_tx \<and> legal_vote_edge ex_use_tx
   \<and> tx_oid ex_use_tx \<noteq> tx_oid ex_issue_tx
   \<and> vote_stale (ledger (fst (snd ex_after_issue))) ex_issue_tx
   \<and> without ex_issue_tx [ex_issue_tx, ex_use_tx, ex_issue_tx] = [ex_use_tx]
   \<and> fst (snd (VoteLedger_apply_transactions (fst (snd ex_after_issue)) (snd (snd ex_after_issue))
                 [ex_issue_tx, ex_use_tx, ex_issue_tx]))
       = fst (snd (VoteLedger_apply_transactions (fst (snd ex_after_issue)) (snd (snd ex_after_issue))
                 [ex_use_tx]))
   \<and> legal_voter_edge ex_voter_tx \<and> legal_voter_edge ex_voter_tx2
   \<and> tx_oid ex_voter_tx2 \<noteq> tx_oid ex_voter_tx
   \<and> voter_stale (ledger (snd ex_after_vote)) ex_voter_tx
   \<and> VoterLedger_apply_transactions (snd ex_after_vote) [ex_voter_tx, ex_voter_tx2, ex_voter_tx]
       = VoterLedger_apply_transactions (snd ex_after_vote) [ex_voter_tx2]
   \<and> ledger ex_vote_ledger (BallotKey (ballot_oid (content ex_issue_tx)))
       = Some (StrVal (previous_state ex_issue_tx))
   \<and> vote_stale (fst (snd (vote_step 0 ex_issue_tx
                              (ledger ex_vote_ledger, snd (snd ex_after_issue))))) ex_issue_tx
   \<and> ledger ex_voter_ledger (VoterKey (voter_oid (content ex_voter_tx)))
       = Some (StrVal (previous_state ex_voter_tx))
   \<and> voter_stale (snd (voter_step ex_voter_tx (ledger ex_voter_ledger))) ex_voter_tx"
proof -
  have g: "legal_vote_edge ex_issue_tx" "legal_vote_edge ex_use_tx"
    "tx_oid ex_use_tx \<noteq> tx_oid ex_issue_tx"
    "legal_voter_edge ex_voter_tx" "legal_voter_edge ex_voter_tx2"
    "tx_oid ex_voter_tx2 \<noteq> tx_oid ex_voter_tx"
    by code_simp+
  from g have h1: "\<forall>x \<in> set [ex_issue_tx, ex_use_tx, ex_issue_tx]. legal_vote_edge x"
    by simp
  from g have h2: "\<forall>x \<in> set [ex_issue_tx, ex_use_tx, ex_issue_tx].
              tx_oid x = tx_oid ex_issue_tx \<longrightarrow> x = ex_issue_tx"
    by simp
  have h3: "vote_stale (ledger (fst (snd ex_after_issue))) ex_issue_tx"
    by code_simp
  have w: "without ex_issue_tx [ex_issue_tx, ex_use_tx, ex_issue_tx] = [ex_use_tx]"
    by code_simp
  from g have v1: "\<forall>x \<in> set [ex_voter_tx, ex_voter_tx2, ex_voter_tx]. legal_voter_edge x"
    by simp
  from g have v2: "\<forall>x \<in> set [ex_voter_tx, ex_voter_tx2, ex_voter_tx].
              tx_oid x = tx_oid ex_voter_tx \<longrightarrow> x = ex_voter_tx"
    by simp
  have v3: "voter_stale (ledger (snd ex_after_vote)) ex_voter_tx"
    by code_simp
  have vw: "without ex_voter_tx [ex_voter_tx, ex_voter_tx2, ex_voter_tx] = [ex_voter_tx2]"
    by code_simp
  have s1: "ledger ex_vote_ledger (BallotKey (ballot_oid (content ex_issue_tx)))
       = Some (StrVal (previous_state ex_issue_tx))"
    by code_simp
  have s2: "ledger ex_voter_ledger (VoterKey (voter_oid (content ex_voter_tx)))
       = Some (StrVal (previous_state ex_voter_tx))"
    by code_simp
  note inst = C4_stale_copies_ignored [of "[ex_issue_tx, ex_use_tx, ex_issue_tx]" ex_issue_tx
      "fst (snd ex_after_issue)" "snd (snd ex_after_issue)"
      "[ex_voter_tx, ex_voter_tx2, ex_voter_tx]" ex_voter_tx "snd ex_after_vote"
      "ledger ex_vote_ledger" 0 "ledger ex_voter_ledger"]
  note vote = inst [THEN conjunct1, THEN mp, THEN mp, THEN mp, OF h1 h2 h3, unfolded w]
  note r1 = vote [THEN conjunct2, THEN conjunct1]
  note r2 = inst [THEN conjunct2, THEN conjunct1, THEN mp, THEN mp, THEN mp, OF v1 v2 v3,
      unfolded vw]
  have it: "(0::nat) \<noteq> 1 \<or> snd (snd ex_after_issue) (tx_oid ex_issue_tx) = Some True"
    by simp
  note r3 = inst [THEN conjunct2, THEN conjunct2, THEN conjunct1, THEN mp, THEN mp, THEN mp,
      OF g(1) s1 it]
  note r4 = inst [THEN conjunct2, THEN conjunct2, THEN conjunct2, THEN mp, THEN mp, OF g(4) s2]
  show ?thesis
    by (intro conjI g h3 w r1 v3 r2 s1 r3 s2 r4)
qed

subsection \<open>Deferred and conflicting transactions\<close>

lemma ex_skip_tx_constructed:
  "VoteTransaction_init 34 ex_now (BallotObj ex_ballot1_X) ex_computer
     CREATED USED False None = Inr ex_skip_tx"
  by code_simp

lemma voter_step_deferred:
  assumes "d (VoterKey (voter_oid (content t))) = Some cur"
      and "cur \<noteq> StrVal (previous_state t)"
  shows "voter_step t d = (None, d)"
  using assms by (simp add: voter_step_def Let_def)

lemma vote_passes_deferred:
  assumes "d (BallotKey (ballot_oid (content t))) = Some cur"
      and "cur \<noteq> StrVal (previous_state t)"
  shows "vote_passes [t] (d, fl) = (None, d, fl(tx_oid t \<mapsto> True))"
proof -
  have s: "\<And>i f. i \<noteq> 1 \<or> f (tx_oid t) = Some True \<Longrightarrow>
             vote_step i t (d, f) = (None, d, f(tx_oid t \<mapsto> True))"
    using assms by (auto intro!: vote_step_defer')
  show ?thesis
    by (simp add: vote_passes_def s)
qed

lemma vote_passes_conflict:
  assumes b: "ballot_oid (content u1) = ballot_oid (content u2)"
      and cur: "d (BallotKey (ballot_oid (content u1))) = Some (StrVal (previous_state u1))"
      and same: "previous_state u2 = previous_state u1"
      and moves: "new_state u1 \<noteq> previous_state u1"
      and ne: "tx_oid u1 \<noteq> tx_oid u2"
  shows "vote_passes [u1, u2] (d, fl) =
           (case vote_passes [u1] (d, fl) of
              (None, d', fl') \<Rightarrow> (None, d', fl'(tx_oid u2 \<mapsto> True))
            | (Some e, s') \<Rightarrow> (Some e, s'))"
proof -
  obtain r d1 where u: "update_ballot u1 (StrVal (previous_state u1)) d = (r, d1)"
    by (cases "update_ballot u1 (StrVal (previous_state u1)) d")
  have d1k: "d1 (BallotKey (ballot_oid (content u2))) = Some (StrVal (new_state u1))"
    using update_ballot_ballot_key [of u1 "StrVal (previous_state u1)" d "ballot_oid (content u1)"]
      u b by simp
  have s1: "\<And>f. vote_step 0 u1 (d, f) =
              (case r of Some e \<Rightarrow> (Some e, d1, f) | None \<Rightarrow> (None, d1, f(tx_oid u1 \<mapsto> False)))"
    using vote_step_apply [of 0 _ u1 d] cur u by (simp split: option.splits)
  have s2: "\<And>i f. i \<noteq> 1 \<or> f (tx_oid u2) = Some True \<Longrightarrow>
              vote_step i u2 (d1, f) = (None, d1, f(tx_oid u2 \<mapsto> True))"
    using d1k same moves by (auto intro!: vote_step_defer')
  have ne': "tx_oid u2 \<noteq> tx_oid u1" using ne by simp
  show ?thesis
    using ne ne'
    by (cases r) (simp_all add: vote_passes_def s1 s2 vote_step_skip)
qed

text \<open>
  C6, as amended. A transaction whose precondition does not hold is left unapplied and
  nothing is reported: the voter ledger skips it and leaves no trace, and the vote
  ledger, after its two passes, has only set the mark \<^verbatim>\<open>_reiterate\<close> of the
  transaction object to True. When two transactions of one ballot have the same
  satisfied precondition, and the first one's target differs from it, the one earlier
  in the batch is applied and the later one is deferred in both passes: the result is
  that of the first transaction alone, with the second one marked.
\<close>

theorem C6_deferred_and_conflicting:
  "(vd (VoterKey (voter_oid (content vt))) = Some vcur \<longrightarrow> vcur \<noteq> StrVal (previous_state vt) \<longrightarrow>
      voter_step vt vd = (None, vd))
   \<and> (ledger l (BallotKey (ballot_oid (content t))) = Some cur \<longrightarrow>
        cur \<noteq> StrVal (previous_state t) \<longrightarrow>
        VoteLedger_apply_transactions l fl [t] = (None, l, fl(tx_oid t \<mapsto> True)))
   \<and> (ballot_oid (content u1) = ballot_oid (content u2) \<longrightarrow>
        ledger l (BallotKey (ballot_oid (content u1))) = Some (StrVal (previous_state u1)) \<longrightarrow>
        previous_state u2 = previous_state u1 \<longrightarrow>
        new_state u1 \<noteq> previous_state u1 \<longrightarrow>
        tx_oid u1 \<noteq> tx_oid u2 \<longrightarrow>
        VoteLedger_apply_transactions l fl [u1, u2] =
          (case VoteLedger_apply_transactions l fl [u1] of
             (None, l', fl') \<Rightarrow> (None, l', fl'(tx_oid u2 \<mapsto> True))
           | (Some e, r) \<Rightarrow> (Some e, r)))"
proof (intro conjI impI)
  assume "vd (VoterKey (voter_oid (content vt))) = Some vcur" "vcur \<noteq> StrVal (previous_state vt)"
  then show "voter_step vt vd = (None, vd)"
    by (rule voter_step_deferred)
next
  assume "ledger l (BallotKey (ballot_oid (content t))) = Some cur"
    "cur \<noteq> StrVal (previous_state t)"
  then show "VoteLedger_apply_transactions l fl [t] = (None, l, fl(tx_oid t \<mapsto> True))"
    by (simp add: VoteLedger_apply_transactions_def vote_passes_deferred)
next
  assume a: "ballot_oid (content u1) = ballot_oid (content u2)"
    "ledger l (BallotKey (ballot_oid (content u1))) = Some (StrVal (previous_state u1))"
    "previous_state u2 = previous_state u1" "new_state u1 \<noteq> previous_state u1"
    "tx_oid u1 \<noteq> tx_oid u2"
  obtain e d' f where one: "vote_passes [u1] (ledger l, fl) = (e, d', f)"
    by (cases "vote_passes [u1] (ledger l, fl)") auto
  from vote_passes_conflict [of u1 u2 "ledger l" fl, OF a] one
  show "VoteLedger_apply_transactions l fl [u1, u2] =
          (case VoteLedger_apply_transactions l fl [u1] of
             (None, l', fl') \<Rightarrow> (None, l', fl'(tx_oid u2 \<mapsto> True))
           | (Some e, r) \<Rightarrow> (Some e, r))"
    by (cases e) (simp_all add: VoteLedger_apply_transactions_def)
qed

text \<open>
  The claim as stated fails: replaying a voter transaction whose precondition is
  stale gives exactly the result of the empty batch, so nothing is reported; and of
  the two conflicting transactions Created to Issued and Created to Used of one
  ballot the first in the batch wins, in either order, with no exception.
\<close>

theorem C6_counterexample:
  "fst (VoterLedger_apply_transactions (snd ex_after_vote) [ex_voter_tx]) = None
   \<and> snd (VoterLedger_apply_transactions (snd ex_after_vote) [ex_voter_tx]) = snd ex_after_vote
   \<and> VoterLedger_apply_transactions (snd ex_after_vote) [ex_voter_tx]
       = VoterLedger_apply_transactions (snd ex_after_vote) []
   \<and> fst (VoteLedger_apply_transactions ex_vote_ledger Map.empty [ex_issue_tx, ex_skip_tx]) = None
   \<and> ledger (fst (snd (VoteLedger_apply_transactions ex_vote_ledger Map.empty
                         [ex_issue_tx, ex_skip_tx]))) (BallotKey 1) = Some (StrVal ISSUED)
   \<and> fst (VoteLedger_apply_transactions ex_vote_ledger Map.empty [ex_skip_tx, ex_issue_tx]) = None
   \<and> ledger (fst (snd (VoteLedger_apply_transactions ex_vote_ledger Map.empty
                         [ex_skip_tx, ex_issue_tx]))) (BallotKey 1) = Some (StrVal USED)"
proof -
  have stale: "voter_stale (ledger (snd ex_after_vote)) ex_voter_tx"
    by code_simp
  then have step: "voter_step ex_voter_tx (ledger (snd ex_after_vote)) = (None, ledger (snd ex_after_vote))"
    by (rule voter_step_stale_copy)
  have v: "VoterLedger_apply_transactions (snd ex_after_vote) [ex_voter_tx] = (None, snd ex_after_vote)"
    by (simp add: VoterLedger_apply_transactions_def step)
  have e: "VoterLedger_apply_transactions (snd ex_after_vote) [] = (None, snd ex_after_vote)"
    by (simp add: VoterLedger_apply_transactions_def)
  have c: "fst (VoteLedger_apply_transactions ex_vote_ledger Map.empty [ex_issue_tx, ex_skip_tx]) = None"
    "ledger (fst (snd (VoteLedger_apply_transactions ex_vote_ledger Map.empty
                         [ex_issue_tx, ex_skip_tx]))) (BallotKey 1) = Some (StrVal ISSUED)"
    "fst (VoteLedger_apply_transactions ex_vote_ledger Map.empty [ex_skip_tx, ex_issue_tx]) = None"
    "ledger (fst (snd (VoteLedger_apply_transactions ex_vote_ledger Map.empty
                         [ex_skip_tx, ex_issue_tx]))) (BallotKey 1) = Some (StrVal USED)"
    by code_simp+
  from v e c show ?thesis by simp
qed

theorem C6_deferred_and_conflicting_witness:
  "ledger (snd ex_after_vote) (VoterKey (voter_oid (content ex_voter_tx))) = Some (StrVal VOTED)
   \<and> StrVal VOTED \<noteq> StrVal (previous_state ex_voter_tx)
   \<and> voter_step ex_voter_tx (ledger (snd ex_after_vote)) = (None, ledger (snd ex_after_vote))
   \<and> ledger ex_vote_ledger (BallotKey (ballot_oid (content ex_use_tx))) = Some (StrVal CREATED)
   \<and> StrVal CREATED \<noteq> StrVal (previous_state ex_use_tx)
   \<and> VoteLedger_apply_transactions ex_vote_ledger Map.empty [ex_use_tx]
       = (None, ex_vote_ledger, Map.empty(tx_oid ex_use_tx \<mapsto> True))
   \<and> ballot_oid (content ex_issue_tx) = ballot_oid (content ex_skip_tx)
   \<and> ledger ex_vote_ledger (BallotKey (ballot_oid (content ex_issue_tx)))
       = Some (StrVal (previous_state ex_issue_tx))
   \<and> previous_state ex_skip_tx = previous_state ex_issue_tx
   \<and> new_state ex_issue_tx \<noteq> previous_state ex_issue_tx
   \<and> tx_oid ex_issue_tx \<noteq> tx_oid ex_skip_tx
   \<and> VoteLedger_apply_transactions ex_vote_ledger Map.empty [ex_issue_tx, ex_skip_tx] =
        (case VoteLedger_apply_transactions ex_vote_ledger Map.empty [ex_issue_tx] of
           (None, l', fl') \<Rightarrow> (None, l', fl'(tx_oid ex_skip_tx \<mapsto> True))
         | (Some e, r) \<Rightarrow> (Some e, r))"
proof -
  have a: "ledger (snd ex_after_vote) (VoterKey (voter_oid (content ex_voter_tx))) = Some (StrVal VOTED)"
    "StrVal VOTED \<noteq> StrVal (previous_state ex_voter_tx)"
    by code_simp+
  have b: "ledger ex_vote_ledger (BallotKey (ballot_oid (content ex_use_tx))) = Some (StrVal CREATED)"
    "StrVal CREATED \<noteq> StrVal (previous_state ex_use_tx)"
    by code_simp+
  have c: "ballot_oid (content ex_issue_tx) = ballot_oid (content ex_skip_tx)"
    "ledger ex_vote_ledger (BallotKey (ballot_oid (content ex_issue_tx)))
       = Some (StrVal (previous_state ex_issue_tx))"
    "previous_state ex_skip_tx = previous_state ex_issue_tx"
    "new_state ex_issue_tx \<noteq> previous_state ex_issue_tx"
    "tx_oid ex_issue_tx \<noteq> tx_oid ex_skip_tx"
    by code_simp+
  note inst = C6_deferred_and_conflicting [of "ledger (snd ex_after_vote)" ex_voter_tx
      "StrVal VOTED" ex_vote_ledger ex_use_tx "StrVal CREATED" Map.empty ex_issue_tx ex_skip_tx]
  note r1 = inst [THEN conjunct1, THEN mp, THEN mp, OF a]
  note r2 = inst [THEN conjunct2, THEN conjunct1, THEN mp, THEN mp, OF b]
  note r3 = inst [THEN conjunct2, THEN conjunct2, THEN mp, THEN mp, THEN mp, THEN mp, THEN mp, OF c]
  show ?thesis
    by (intro conjI a r1 b r2 c r3)
qed

subsection \<open>The choice objects of generated ballots\<close>

lemma deepcopy_choices_range:
  assumes "deepcopy_choices cs (memo, n) = (cs', memo', n')"
      and "\<forall>v \<in> ran memo. n0 \<le> choice_oid v \<and> choice_oid v < n"
      and "n0 \<le> n"
  shows "n \<le> n' \<and> (\<forall>c \<in> set cs'. n0 \<le> choice_oid c \<and> choice_oid c < n')
         \<and> (\<forall>v \<in> ran memo'. n0 \<le> choice_oid v \<and> choice_oid v < n')"
  using assms
proof (induction cs arbitrary: memo n cs' memo' n')
  case Nil
  then show ?case by simp
next
  case (Cons c cs)
  show ?case
  proof (cases "memo (choice_oid c)")
    case (Some c')
    obtain r m1 n1 where rec: "deepcopy_choices cs (memo, n) = (r, m1, n1)"
      by (cases "deepcopy_choices cs (memo, n)") auto
    from Cons.prems(1) Some rec have eq: "cs' = c' # r" "memo' = m1" "n' = n1"
      by simp_all
    from Cons.IH [OF rec Cons.prems(2,3)]
    have ih: "n \<le> n1" "\<forall>c \<in> set r. n0 \<le> choice_oid c \<and> choice_oid c < n1"
      "\<forall>v \<in> ran m1. n0 \<le> choice_oid v \<and> choice_oid v < n1"
      by simp_all
    from Some have "c' \<in> ran memo" by (auto simp: ran_def)
    with Cons.prems(2) ih(1) have "n0 \<le> choice_oid c' \<and> choice_oid c' < n1" by fastforce
    with eq ih show ?thesis by simp
  next
    case None
    let ?c' = "c\<lparr>choice_oid := n\<rparr>"
    obtain r m1 n1 where
      rec: "deepcopy_choices cs (memo(choice_oid c \<mapsto> ?c'), Suc n) = (r, m1, n1)"
      by (cases "deepcopy_choices cs (memo(choice_oid c \<mapsto> ?c'), Suc n)") auto
    from Cons.prems(1) None rec have eq: "cs' = ?c' # r" "memo' = m1" "n' = n1"
      by (simp_all add: Let_def)
    have inv: "\<forall>v \<in> ran (memo(choice_oid c \<mapsto> ?c')). n0 \<le> choice_oid v \<and> choice_oid v < Suc n"
    proof
      fix v assume "v \<in> ran (memo(choice_oid c \<mapsto> ?c'))"
      then have "v = ?c' \<or> v \<in> ran memo"
        by (auto simp: ran_def split: if_splits)
      with Cons.prems(2,3) show "n0 \<le> choice_oid v \<and> choice_oid v < Suc n"
        by fastforce
    qed
    from Cons.IH [OF rec inv] Cons.prems(3)
    have ih: "Suc n \<le> n1" "\<forall>c \<in> set r. n0 \<le> choice_oid c \<and> choice_oid c < n1"
      "\<forall>v \<in> ran m1. n0 \<le> choice_oid v \<and> choice_oid v < n1"
      by simp_all
    with eq Cons.prems(3) show ?thesis by simp
  qed
qed

lemma deepcopy_item_range:
  assumes "deepcopy_item item n = (item', n')"
  shows "n \<le> n' \<and> (\<forall>c \<in> set (choices item'). n \<le> choice_oid c \<and> choice_oid c < n')"
proof -
  obtain cs' memo' m where d: "deepcopy_choices (choices item) (Map.empty, n) = (cs', memo', m)"
    by (cases "deepcopy_choices (choices item) (Map.empty, n)") auto
  with assms have eq: "item' = item\<lparr>choices := cs'\<rparr>" "n' = m"
    by (simp_all add: deepcopy_item_def)
  from deepcopy_choices_range [OF d, of n] eq show ?thesis by simp
qed

lemma get_deep_copy_of_list_range:
  assumes "get_deep_copy_of_list objs n = (objs', n')"
  shows "n \<le> n' \<and> (\<forall>item \<in> set objs'. \<forall>c \<in> set (choices item).
                      n \<le> choice_oid c \<and> choice_oid c < n')"
  using assms
proof (induction objs arbitrary: n objs' n')
  case Nil
  then show ?case by simp
next
  case (Cons obj objs)
  obtain o' n1 where d: "deepcopy_item obj n = (o', n1)"
    by (cases "deepcopy_item obj n")
  obtain r n2 where rec: "get_deep_copy_of_list objs n1 = (r, n2)"
    by (cases "get_deep_copy_of_list objs n1")
  from Cons.prems d rec have eq: "objs' = o' # r" "n' = n2" by simp_all
  from deepcopy_item_range [OF d]
  have a: "n \<le> n1" "\<forall>c \<in> set (choices o'). n \<le> choice_oid c \<and> choice_oid c < n1" by simp_all
  from Cons.IH [OF rec]
  have b: "n1 \<le> n2" "\<forall>item \<in> set r. \<forall>c \<in> set (choices item). n1 \<le> choice_oid c \<and> choice_oid c < n2"
    by simp_all
  from a b eq show ?case by fastforce
qed

lemma generate_loop_range:
  assumes "generate_loop rnd el its k w = (bs, w')"
  shows "next_oid w \<le> next_oid w'
         \<and> (\<forall>b \<in> set bs. \<forall>c \<in> set (ballot_choices b).
               next_oid w \<le> choice_oid c \<and> choice_oid c < next_oid w')"
  using assms
proof (induction k arbitrary: w bs w')
  case 0
  then show ?case by simp
next
  case (Suc k)
  obtain copies n1 where c: "get_deep_copy_of_list its (next_oid w) = (copies, n1)"
    by (cases "get_deep_copy_of_list its (next_oid w)")
  obtain b w1 where bi: "Ballot_init rnd el copies (w\<lparr>next_oid := n1\<rparr>) = (b, w1)"
    by (cases "Ballot_init rnd el copies (w\<lparr>next_oid := n1\<rparr>)")
  obtain r w2 where rec: "generate_loop rnd el its k w1 = (r, w2)"
    by (cases "generate_loop rnd el its k w1")
  from Suc.prems c bi rec have eq: "bs = b # r" "w' = w2" by simp_all
  from bi have b: "items b = copies" "next_oid w1 = Suc n1"
    by (auto simp: Ballot_init_def)
  from get_deep_copy_of_list_range [OF c]
  have a: "next_oid w \<le> n1"
    "\<forall>item \<in> set copies. \<forall>c \<in> set (choices item). next_oid w \<le> choice_oid c \<and> choice_oid c < n1"
    by simp_all
  from Suc.IH [OF rec]
  have ih: "next_oid w1 \<le> next_oid w2"
    "\<forall>b \<in> set r. \<forall>c \<in> set (ballot_choices b). next_oid w1 \<le> choice_oid c \<and> choice_oid c < next_oid w2"
    by simp_all
  have first: "\<forall>c \<in> set (ballot_choices b). next_oid w \<le> choice_oid c \<and> choice_oid c < next_oid w2"
    using a b ih(1) by (fastforce simp: ballot_choices_def)
  have rest: "\<forall>b \<in> set r. \<forall>c \<in> set (ballot_choices b).
                next_oid w \<le> choice_oid c \<and> choice_oid c < next_oid w2"
    using ih(2) a(1) b(2) by fastforce
  from first rest a(1) b(2) ih(1) eq show ?case by simp
qed

lemma generate_loop_first_apart:
  assumes "generate_loop rnd el its k w = (b0 # r, w')"
  shows "\<forall>b \<in> set r. \<forall>c \<in> set (ballot_choices b). \<forall>c0 \<in> set (ballot_choices b0).
           choice_oid c \<noteq> choice_oid c0"
proof (cases k)
  case 0
  with assms show ?thesis by simp
next
  case (Suc k')
  obtain copies n1 where c: "get_deep_copy_of_list its (next_oid w) = (copies, n1)"
    by (cases "get_deep_copy_of_list its (next_oid w)")
  obtain b w1 where bi: "Ballot_init rnd el copies (w\<lparr>next_oid := n1\<rparr>) = (b, w1)"
    by (cases "Ballot_init rnd el copies (w\<lparr>next_oid := n1\<rparr>)")
  obtain r' w2 where rec: "generate_loop rnd el its k' w1 = (r', w2)"
    by (cases "generate_loop rnd el its k' w1")
  from assms Suc c bi rec have eq: "b0 = b" "r = r'" by simp_all
  from bi have b: "items b = copies" "next_oid w1 = Suc n1"
    by (auto simp: Ballot_init_def)
  from get_deep_copy_of_list_range [OF c]
  have a: "\<forall>item \<in> set copies. \<forall>c \<in> set (choices item). choice_oid c < n1"
    by simp
  from generate_loop_range [OF rec]
  have ih: "\<forall>b \<in> set r'. \<forall>c \<in> set (ballot_choices b). next_oid w1 \<le> choice_oid c"
    by simp
  show ?thesis
  proof (intro ballI)
    fix x c c0
    assume "x \<in> set r" "c \<in> set (ballot_choices x)" "c0 \<in> set (ballot_choices b0)"
    with ih eq b a have "Suc n1 \<le> choice_oid c" "choice_oid c0 < n1"
      by (auto simp: ballot_choices_def)
    then show "choice_oid c \<noteq> choice_oid c0" by simp
  qed
qed

lemma fold_choice_keys_lookup:
  "fold (\<lambda>candidate d. d(ChoiceKey (choice_oid candidate) \<mapsto> v)) cs d (ChoiceKey c) =
     (if c \<in> choice_oid ` set cs then Some v else d (ChoiceKey c))"
  by (induction cs arbitrary: d) auto

lemma VoteLedger_init_choice_keys:
  assumes "VoteLedger_init (b0 # r) = Inr l" and "c \<notin> choice_oid ` set (ballot_choices b0)"
  shows "ledger l (ChoiceKey c) = None"
  using assms
  by (auto simp: VoteLedger_init_def Let_def fold_choice_keys_lookup fold_ballot_keys_other
      ballot_choices_def)

lemma update_candidate_votes_absent:
  "d (ChoiceKey c) = None \<Longrightarrow> snd (update_candidate_votes cs d) (ChoiceKey c) = None"
proof (induction cs arbitrary: d)
  case Nil
  then show ?case by simp
next
  case (Cons x cs)
  show ?case
  proof (cases "d (ChoiceKey (choice_oid x))")
    case None
    with Cons.prems show ?thesis by simp
  next
    case (Some v)
    with Cons.prems have ne: "choice_oid x \<noteq> c" by auto
    show ?thesis
    proof (cases v)
      case (StrVal str)
      with Some Cons.prems show ?thesis by simp
    next
      case (IntVal n)
      have "(d(ChoiceKey (choice_oid x) \<mapsto> IntVal (n + 1))) (ChoiceKey c) = None"
        using Cons.prems ne by simp
      then have "snd (update_candidate_votes cs (d(ChoiceKey (choice_oid x) \<mapsto> IntVal (n + 1))))
                   (ChoiceKey c) = None"
        by (rule Cons.IH)
      with Some IntVal show ?thesis by simp
    qed
  qed
qed

lemma update_ballot_absent:
  "d (ChoiceKey c) = None \<Longrightarrow> snd (update_ballot t old d) (ChoiceKey c) = None"
  by (auto simp: update_ballot_def Let_def update_candidate_votes_absent
      split: option.splits val.splits)

lemma vote_step_absent:
  assumes "fst s (ChoiceKey c) = None"
  shows "fst (snd (vote_step iteration t s)) (ChoiceKey c) = None"
proof -
  obtain d fl where s: "s = (d, fl)" by (cases s)
  with assms have d: "d (ChoiceKey c) = None" by simp
  obtain r d1 where u: "update_ballot t (StrVal (previous_state t)) d = (r, d1)"
    by (cases "update_ballot t (StrVal (previous_state t)) d")
  from update_ballot_absent [of d c t "StrVal (previous_state t)", OF d] u
  have d1: "d1 (ChoiceKey c) = None" by simp
  have "fst (snd (vote_step iteration t (d, fl))) (ChoiceKey c) = None"
  proof (cases rule: vote_step_cases [where iteration = iteration and fl = fl and t = t and d = d])
    case unset
    with d show ?thesis by (simp add: vote_step_unset)
  next
    case skip
    with d show ?thesis by (simp add: vote_step_skip)
  next
    case missing
    with d show ?thesis by (simp add: vote_step_missing)
  next
    case deferred
    with d show ?thesis by (simp add: vote_step_defer')
  next
    case applied
    from u d1 show ?thesis
      by (cases r) (simp_all add: vote_step_apply [of iteration fl t d, OF applied])
  qed
  with s show ?thesis by simp
qed

lemma vote_pass_absent:
  assumes "fst s (ChoiceKey c) = None"
  shows "fst (snd (vote_pass iteration ts s)) (ChoiceKey c) = None"
  using assms
proof (induction ts arbitrary: s)
  case Nil
  then show ?case by simp
next
  case (Cons t ts)
  obtain e s' where st: "vote_step iteration t s = (e, s')"
    by (cases "vote_step iteration t s")
  from vote_step_absent [OF Cons.prems, of iteration t] st
  have s': "fst s' (ChoiceKey c) = None" by simp
  from Cons.IH [OF s'] st s' show ?case by (cases e) simp_all
qed

lemma VoteLedger_apply_transactions_absent:
  assumes "ledger l (ChoiceKey c) = None"
  shows "ledger (fst (snd (VoteLedger_apply_transactions l fl ts))) (ChoiceKey c) = None"
proof -
  obtain e0 s0 where p0: "vote_pass 0 ts (ledger l, fl) = (e0, s0)"
    by (cases "vote_pass 0 ts (ledger l, fl)")
  from vote_pass_absent [of "(ledger l, fl)" c 0 ts] assms p0
  have s0: "fst s0 (ChoiceKey c) = None" by simp
  obtain e1 s1 where p1: "vote_pass 1 ts s0 = (e1, s1)"
    by (cases "vote_pass 1 ts s0")
  from vote_pass_absent [OF s0, of 1 ts] p1
  have s1: "fst s1 (ChoiceKey c) = None" by simp
  from p0 p1 s0 s1 show ?thesis
    by (cases e0; cases s0; cases s1)
      (simp_all add: VoteLedger_apply_transactions_def vote_passes_def)
qed

lemma VoteLedger_replay_absent:
  assumes "ledger l (ChoiceKey c) = None"
  shows "ledger (fst (VoteLedger_replay l fl batches)) (ChoiceKey c) = None"
  using assms
proof (induction batches arbitrary: l fl)
  case Nil
  then show ?case by simp
next
  case (Cons ts batches)
  obtain e l' fl' where ap: "VoteLedger_apply_transactions l fl ts = (e, l', fl')"
    by (cases "VoteLedger_apply_transactions l fl ts") auto
  from VoteLedger_apply_transactions_absent [OF Cons.prems, of fl ts] ap
  have "ledger l' (ChoiceKey c) = None" by simp
  from Cons.IH [OF this, of fl'] ap show ?case by simp
qed

lemma select_choice_props:
  assumes "select_choice b k j = Inr b'"
  shows "ballot_oid b' = ballot_oid b"
    and "choice_oid ` set (ballot_choices b') \<subseteq> choice_oid ` set (ballot_choices b)"
    and "get_selected_choices b' \<noteq> []"
    and "set (get_selected_choices b') \<subseteq> set (ballot_choices b')"
proof -
  from assms have k: "k < length (items b)" and j: "j < length (choices (items b ! k))"
    by (auto simp: select_choice_def Let_def split: if_splits)
  let ?item = "items b ! k"
  let ?item' = "?item\<lparr>choices := (choices ?item)[j := select (choices ?item ! j)]\<rparr>"
  from assms k j have b': "b' = b\<lparr>items := (items b)[k := ?item']\<rparr>"
    by (simp add: select_choice_def Let_def)
  show "ballot_oid b' = ballot_oid b" by (simp add: b')
  have oids: "choice_oid ` set (choices ?item') \<subseteq> choice_oid ` set (choices ?item)"
  proof
    fix x assume "x \<in> choice_oid ` set (choices ?item')"
    then obtain c where c: "c \<in> set ((choices ?item)[j := select (choices ?item ! j)])" "x = choice_oid c"
      by auto
    from c(1) have "c = select (choices ?item ! j) \<or> c \<in> set (choices ?item)"
      by (auto dest: set_update_subset_insert [THEN subsetD])
    with c(2) j show "x \<in> choice_oid ` set (choices ?item)"
      by (auto simp: select_def)
  qed
  show "choice_oid ` set (ballot_choices b') \<subseteq> choice_oid ` set (ballot_choices b)"
  proof
    fix x assume "x \<in> choice_oid ` set (ballot_choices b')"
    then obtain it c where it: "it \<in> set ((items b)[k := ?item'])" "c \<in> set (choices it)" "x = choice_oid c"
      by (auto simp: ballot_choices_def b')
    from it(1) have "it = ?item' \<or> it \<in> set (items b)"
      by (auto dest: set_update_subset_insert [THEN subsetD])
    then show "x \<in> choice_oid ` set (ballot_choices b)"
    proof
      assume "it = ?item'"
      with it oids have "x \<in> choice_oid ` set (choices ?item)" by auto
      with k show ?thesis by (force simp: ballot_choices_def)
    next
      assume "it \<in> set (items b)"
      with it show ?thesis by (force simp: ballot_choices_def)
    qed
  qed
  have "?item' \<in> set (items b')"
    using k by (simp add: b' set_update_memI)
  moreover have "select (choices ?item ! j) \<in> set (choices ?item')"
    using j by (simp add: set_update_memI)
  moreover have "chosen (select (choices ?item ! j))" by (simp add: select_def)
  ultimately have "\<exists>it \<in> set (items b'). select (choices ?item ! j) \<in> set (filter chosen (choices it))"
    by (intro bexI [of _ ?item']) simp_all
  then have "select (choices ?item ! j) \<in> set (get_selected_choices b')"
    by (simp add: get_selected_choices_def)
  then show "get_selected_choices b' \<noteq> []" by auto
  show "set (get_selected_choices b') \<subseteq> set (ballot_choices b')"
    by (auto simp: get_selected_choices_def ballot_choices_def)
qed

lemma update_candidate_votes_missing:
  assumes "cs \<noteq> []" and "\<forall>c \<in> set cs. d (ChoiceKey (choice_oid c)) = None"
  shows "fst (update_candidate_votes cs d) = Some KeyError"
  using assms by (cases cs) simp_all

lemma generate_ballots_others_apart:
  assumes gen: "generate_ballots rnd el its num w = (bs, g, w')"
      and i: "0 < i" "i < length bs"
      and c: "c \<in> set (ballot_choices (bs ! i))"
  shows "\<exists>b0 r. bs = b0 # r \<and> choice_oid c \<notin> choice_oid ` set (ballot_choices b0)"
proof -
  from i obtain b0 r where bs: "bs = b0 # r" by (cases bs) auto
  with i have mem: "bs ! i \<in> set r" by (cases i) auto
  from gen bs obtain n where loop: "generate_loop rnd el its n w = (b0 # r, w')"
    by (auto simp: generate_ballots_def split: option.splits if_splits prod.splits)
  from generate_loop_first_apart [OF loop] mem c
  have "\<forall>c0 \<in> set (ballot_choices b0). choice_oid c \<noteq> choice_oid c0" by blast
  with bs show ?thesis by auto
qed

lemma use_of_unlisted_choice_raises:
  assumes absent: "\<forall>c \<in> set (get_selected_choices (content t)). d (ChoiceKey (choice_oid c)) = None"
      and nonempty: "get_selected_choices (content t) \<noteq> []"
      and cur: "d (BallotKey (ballot_oid (content t))) = Some (StrVal (previous_state t))"
      and counters: "vote_counter_sum d = Some n"
      and allowed: "states_allowed VoteTransaction_allowed_states t"
  shows "fst (vote_passes [t] (d, fl)) = Some KeyError"
proof -
  from counters obtain c i u where
    ciu: "d (StrKey CREATED) = Some (IntVal c)" "d (StrKey ISSUED) = Some (IntVal i)"
         "d (StrKey USED) = Some (IntVal u)"
    by (auto simp: vote_counter_sum_def split: option.splits val.splits)
  from allowed ciu obtain a where a: "d (StrKey (previous_state t)) = Some (IntVal a)"
    by (auto simp: states_allowed_def VoteTransaction_allowed_states_def)
  from allowed ciu obtain m where
    m: "(d(StrKey (previous_state t) \<mapsto> IntVal (a - 1))) (StrKey (new_state t)) = Some (IntVal m)"
    by (cases "new_state t = previous_state t")
      (auto simp: states_allowed_def VoteTransaction_allowed_states_def)
  let ?d3 = "d(BallotKey (ballot_oid (content t)) \<mapsto> StrVal (new_state t),
                StrKey (previous_state t) \<mapsto> IntVal (a - 1),
                StrKey (new_state t) \<mapsto> IntVal (m + 1))"
  have "\<forall>c \<in> set (get_selected_choices (content t)). ?d3 (ChoiceKey (choice_oid c)) = None"
    using absent by simp
  with nonempty have "fst (update_candidate_votes (get_selected_choices (content t)) ?d3) = Some KeyError"
    by (rule update_candidate_votes_missing)
  then have "fst (update_ballot t (StrVal (previous_state t)) d) = Some KeyError"
    by (simp add: update_ballot_counters [OF a m])
  then obtain d' where u: "update_ballot t (StrVal (previous_state t)) d = (Some KeyError, d')"
    by (cases "update_ballot t (StrVal (previous_state t)) d") auto
  have "vote_step 0 t (d, fl) = (Some KeyError, d', fl)"
    using vote_step_apply [of 0 fl t d] cur u by simp
  then show ?thesis
    by (simp add: vote_passes_def)
qed

lemma generate_loop_numeral:
  "generate_loop rnd el its (numeral k) w = generate_loop rnd el its (Suc (pred_numeral k)) w"
  by (simp add: numeral_eq_Suc)

lemma ex_made_ballots_generated:
  "generate_ballots ex_rnd ''2018 Election'' [ex_item 10] (Some 2) ex_world =
     (ex_made_ballots, \<lparr>ballots = ex_made_ballots, available_ballots = ex_made_ballots\<rparr>,
      \<lparr>next_oid = 106, draws = 2\<rparr>)"
  by (simp add: generate_ballots_def generate_loop_numeral Ballot_init_def deepcopy_item_def
      ex_item_def ex_choice_def ex_rnd_def ex_world_def str_nat.simps digit_char_def Let_def
      ex_made_ballots_def ex_made_def)

lemma ex_made_ledger_init: "VoteLedger_init ex_made_ballots = Inr ex_made_ledger"
  by (simp add: ex_made_ledger_def ex_made_ballots_def VoteLedger_init_def Let_def)

lemma ex_txs_B_constructed:
  "VoteTransaction_init 35 ex_now (BallotObj (ex_made 105 ''102'' 103 False)) ex_generator
     CREATED ISSUED False (Some False) = Inr ex_issue_tx_B"
  "VoteTransaction_init 36 ex_now (BallotObj (ex_made 105 ''102'' 103 True)) ex_computer
     ISSUED USED False None = Inr ex_use_tx_B"
  by code_simp+

text \<open>
  C10. The tallies of a vote ledger are keyed by the choice objects of the first
  ballot of the list it was initialised with, and \<^verbatim>\<open>generate_ballots\<close> gives every
  ballot its own copies. So, for the ballots \<^verbatim>\<open>generate_ballots\<close> returns, any
  ballot but the first on which a choice has been selected, and any ledger reached
  from the initial one in which that ballot is Issued, replaying the transaction
  Issued to Used of that ballot fails with \<^verbatim>\<open>KeyError\<close> at the tally lookup.
\<close>

theorem C10_other_ballots_choice_not_in_ledger:
  assumes gen: "generate_ballots rnd el its num w = (bs, g, w')"
      and i: "0 < i" "i < length bs"
      and sel: "select_choice (bs ! i) k j = Inr b'"
      and init: "VoteLedger_init bs = Inr l0"
      and ok: "\<forall>ts \<in> set batches. \<forall>x \<in> set ts. states_allowed VoteTransaction_allowed_states x"
      and issued: "ledger (fst (VoteLedger_replay l0 fl0 batches)) (BallotKey (ballot_oid (bs ! i)))
                     = Some (StrVal ISSUED)"
      and t: "content t = b'" "previous_state t = ISSUED" "new_state t = USED"
  shows "fst (VoteLedger_apply_transactions (fst (VoteLedger_replay l0 fl0 batches)) fl [t])
           = Some KeyError"
proof -
  let ?l = "fst (VoteLedger_replay l0 fl0 batches)"
  note props = select_choice_props [OF sel]
  have absent: "\<forall>c \<in> set (get_selected_choices (content t)).
                  ledger ?l (ChoiceKey (choice_oid c)) = None"
  proof
    fix c assume "c \<in> set (get_selected_choices (content t))"
    with t(1) props(2,4) have "choice_oid c \<in> choice_oid ` set (ballot_choices (bs ! i))"
      by auto
    then obtain c' where c': "c' \<in> set (ballot_choices (bs ! i))" "choice_oid c' = choice_oid c"
      by auto
    from generate_ballots_others_apart [OF gen i c'(1)] c'(2)
    obtain b0 r where bs: "bs = b0 # r" "choice_oid c \<notin> choice_oid ` set (ballot_choices b0)"
      by auto
    from VoteLedger_init_choice_keys [of b0 r l0 "choice_oid c"] init bs
    have "ledger l0 (ChoiceKey (choice_oid c)) = None" by simp
    then show "ledger ?l (ChoiceKey (choice_oid c)) = None"
      by (rule VoteLedger_replay_absent)
  qed
  have nonempty: "get_selected_choices (content t) \<noteq> []"
    using props(3) t(1) by simp
  have cur: "ledger ?l (BallotKey (ballot_oid (content t))) = Some (StrVal (previous_state t))"
    using issued props(1) t by simp
  have counters: "vote_counter_sum (ledger ?l) = Some (int (length bs))"
    using VoteLedger_replay_sum [OF ok VoteLedger_init_sum(1) [OF init], of fl0] by simp
  have allowed: "states_allowed VoteTransaction_allowed_states t"
    using t by (simp add: states_allowed_def VoteTransaction_allowed_states_def)
  from use_of_unlisted_choice_raises [OF absent nonempty cur counters allowed, of fl]
  show ?thesis
    by (cases "vote_passes [t] (ledger ?l, fl)") (simp add: VoteLedger_apply_transactions_def)
qed

theorem C10_other_ballots_choice_not_in_ledger_witness:
  "generate_ballots ex_rnd ''2018 Election'' [ex_item 10] (Some 2) ex_world =
     (ex_made_ballots, \<lparr>ballots = ex_made_ballots, available_ballots = ex_made_ballots\<rparr>,
      \<lparr>next_oid = 106, draws = 2\<rparr>)
   \<and> (0::nat) < 1 \<and> 1 < length ex_made_ballots
   \<and> select_choice (ex_made_ballots ! 1) 0 0 = Inr (ex_made 105 ''102'' 103 True)
   \<and> VoteLedger_init ex_made_ballots = Inr ex_made_ledger
   \<and> states_allowed VoteTransaction_allowed_states ex_issue_tx_B
   \<and> ledger (fst (VoteLedger_replay ex_made_ledger Map.empty [[ex_issue_tx_B]]))
         (BallotKey (ballot_oid (ex_made_ballots ! 1))) = Some (StrVal ISSUED)
   \<and> content ex_use_tx_B = ex_made 105 ''102'' 103 True
   \<and> previous_state ex_use_tx_B = ISSUED \<and> new_state ex_use_tx_B = USED
   \<and> fst (VoteLedger_apply_transactions
             (fst (VoteLedger_replay ex_made_ledger Map.empty [[ex_issue_tx_B]])) Map.empty
             [ex_use_tx_B]) = Some KeyError"
proof -
  note gen = ex_made_ballots_generated
  have i: "(0::nat) < 1" "1 < length ex_made_ballots"
    by (simp_all add: ex_made_ballots_def)
  have sel: "select_choice (ex_made_ballots ! 1) 0 0 = Inr (ex_made 105 ''102'' 103 True)"
    by code_simp
  note init = ex_made_ledger_init
  have a: "states_allowed VoteTransaction_allowed_states ex_issue_tx_B"
    by code_simp
  then have ok: "\<forall>ts \<in> set [[ex_issue_tx_B]]. \<forall>x \<in> set ts.
                   states_allowed VoteTransaction_allowed_states x"
    by simp
  have issued: "ledger (fst (VoteLedger_replay ex_made_ledger Map.empty [[ex_issue_tx_B]]))
         (BallotKey (ballot_oid (ex_made_ballots ! 1))) = Some (StrVal ISSUED)"
    by code_simp
  have t: "content ex_use_tx_B = ex_made 105 ''102'' 103 True"
    "previous_state ex_use_tx_B = ISSUED" "new_state ex_use_tx_B = USED"
    by code_simp+
  note r = C10_other_ballots_choice_not_in_ledger [OF gen i sel init ok issued t, of Map.empty]
  show ?thesis
    by (intro conjI gen i sel init a issued t r)
qed

subsection \<open>The chain and its blocks\<close>

text \<open>\<^verbatim>\<open>add_block\<close> alone is the gate the chain is meant to have.\<close>

lemma add_block_gate:
  "fst (add_block self heap block) = [] \<longleftrightarrow> previous_block (heap block) = current_block self"
  "previous_block (heap block) = current_block self \<Longrightarrow>
     current_block (snd (add_block self heap block)) = Some block"
  "previous_block (heap block) \<noteq> current_block self \<Longrightarrow> snd (add_block self heap block) = self"
  by (simp_all add: add_block_def)

text \<open>
  C2. Appending should accept a block iff its previous link is the chain's head, and
  no chain operation should drop a block or put a block at the head that was not built
  on it. \<^verbatim>\<open>add_block\<close> does so, but \<^verbatim>\<open>add_block_2\<close>, whose docstring announces
  the same check, has none: block 3, built on nothing and rejected by \<^verbatim>\<open>add_block\<close>,
  becomes the head, its link overwritten (its header is still the one signed for the
  old link); and adding the head once more makes block 2 its own predecessor, so that
  block 1 is no longer in the chain.
\<close>

theorem C2_add_block_2_has_no_gate:
  "chain_blocks 5 ex_heap (current_block ex_chain) = [2, 1]
   \<and> previous_block (ex_heap 3) \<noteq> current_block ex_chain
   \<and> add_block ex_chain ex_heap 3 = ([''block rejected. must build off current block''], ex_chain)
   \<and> current_block (fst (add_block_2 ex_chain ex_heap 3)) = Some 3
   \<and> previous_block (snd (add_block_2 ex_chain ex_heap 3) 3) = Some 2
   \<and> header (snd (add_block_2 ex_chain ex_heap 3) 3) = header (ex_heap 3)
   \<and> current_block (fst (add_block_2 ex_chain ex_heap 2)) = Some 2
   \<and> chain_blocks 5 (snd (add_block_2 ex_chain ex_heap 2))
        (current_block (fst (add_block_2 ex_chain ex_heap 2))) = [2, 2, 2, 2, 2]"
  by (simp add: add_block_def add_block_2_def ex_chain_def ex_heap_def ex_block_def Let_def
      eval_nat_numeral)

text \<open>
  C9. Constructing a block should yield a header that is the proposer's signature of
  the canonical string. \<^verbatim>\<open>Block.__init__\<close> never returns: with a ledger of the
  block's ledger class it asks the class for \<^verbatim>\<open>get_hash\<close>, which \<^verbatim>\<open>Block\<close> does
  not define, and otherwise it raises a string. \<^verbatim>\<open>Block.get_signature_contents\<close>,
  which builds the canonical string and is never called, raises on every block too,
  at the latest where it reads the unbound name \<^verbatim>\<open>block\<close>.
\<close>

theorem C9_block_construction_raises:
  "Block_init heap decode get_hash cls now txs ledger_arg node_arg prev =
     (if is_ledger_class cls ledger_arg then Inl AttributeError else Inl TypeError)
   \<and> Block_get_signature_contents base_globals heap decode get_hash self =
     (case previous_block self of
        None \<Rightarrow> Inl NameError
      | Some p \<Rightarrow> (case header (heap p) of None \<Rightarrow> Inl AttributeError | Some h \<Rightarrow> Inl NameError))"
  by (simp add: Block_init_def Block_methods_def Block_get_signature_contents_def
      base_globals_def Let_def split: option.splits)

subsection \<open>The second signature\<close>

text \<open>
  What \<^verbatim>\<open>timestamp_and_sign_transactions\<close> does to every transaction of the batch: the
  one timestamp, the mark, and a new signature over content, states and timestamp,
  with the content rendered without keywords. A transaction that was built without
  keywords, by a node whose keys match, verifies afterwards.
\<close>

lemma timestamp_and_sign_result:
  "timestamp_and_sign now tx =
     Inr (tx\<lparr>time := Some now, timestamped := True,
             signature := Some (sign_message (node tx)
               (join '':'' [Ballot_get_signature_contents (content tx) None,
                            previous_state tx, new_state tx, get_formatted_time_str now]))\<rparr>)"
  by (simp add: timestamp_and_sign_def add_timestamp_def Transaction_get_signature_contents_def
      get_time_str_def Let_def)

lemma timestamp_and_sign_transactions_result:
  "timestamp_and_sign_transactions now txs =
     Inr (map (\<lambda>tx. tx\<lparr>time := Some now, timestamped := True,
             signature := Some (sign_message (node tx)
               (join '':'' [Ballot_get_signature_contents (content tx) None,
                            previous_state tx, new_state tx, get_formatted_time_str now]))\<rparr>) txs)"
  by (induction txs) (simp_all add: timestamp_and_sign_result)

lemma sign_then_verify:
  "public_key n = PublicKey k \<Longrightarrow> private_key n = PrivateKey k \<Longrightarrow>
   verify_signature m (sign_message n m) (public_key n)"
  by (simp add: sign_message_def)

lemma resigned_without_keywords_verifies:
  assumes "timestamp_and_sign now tx = Inr tx'"
      and "tx_kwargs tx = None"
      and "public_key (node tx) = PublicKey k" and "private_key (node tx) = PrivateKey k"
  shows "verify_transaction Ballot_get_signature_contents tx' = Inr True"
  using assms
  by (auto simp: timestamp_and_sign_result verify_transaction_def
      Transaction_get_signature_contents_def get_time_str_def Let_def sign_message_def)

text \<open>
  C8. After the second signature every transaction of the batch should verify. The
  transaction the ballot generator builds carries the keyword
  \<^verbatim>\<open>include_chosen=False\<close>; \<^verbatim>\<open>timestamp_and_sign_transactions\<close> signs
  \<^verbatim>\<open>tx.get_signature_contents()\<close> without it, while \<^verbatim>\<open>verify_transaction\<close>
  recomputes the payload with it. Both example transactions verify before; after the
  second signature both carry the one timestamp and a new signature, the transaction
  Issued to Used verifies, and the generator's transaction does not.
\<close>

theorem C8_resigned_issue_tx_fails_verification:
  "verify_transaction Ballot_get_signature_contents ex_issue_tx = Inr True
   \<and> verify_transaction Ballot_get_signature_contents ex_use_tx = Inr True
   \<and> timestamp_and_sign_transactions ex_later [ex_issue_tx, ex_use_tx]
       = Inr [ex_issue_tx_resigned, ex_use_tx_resigned]
   \<and> time ex_issue_tx_resigned = Some ex_later \<and> time ex_use_tx_resigned = Some ex_later
   \<and> timestamped ex_issue_tx_resigned \<and> timestamped ex_use_tx_resigned
   \<and> signature ex_issue_tx_resigned \<noteq> signature ex_issue_tx
   \<and> Transaction_get_signature_contents Ballot_get_signature_contents ex_issue_tx_resigned None
       = Inr ''101:2018 Election:President:President of the United States:1:X:True:Y:False:ballot_created:ballot_issued:2018-11-06 17:30''
   \<and> Transaction_get_signature_contents Ballot_get_signature_contents ex_issue_tx_resigned
         (tx_kwargs ex_issue_tx_resigned)
       = Inr ''101:2018 Election:President:President of the United States:1:X:Y:ballot_created:ballot_issued:2018-11-06 17:30''
   \<and> verify_transaction Ballot_get_signature_contents ex_use_tx_resigned = Inr True
   \<and> verify_transaction Ballot_get_signature_contents ex_issue_tx_resigned = Inr False"
  by code_simp

subsection \<open>Admission of transactions\<close>

lemma ex_untimestamped_voter_tx_constructed:
  "VoterTransaction_init 43 ex_now (VoterObj ex_voter2)
     \<lparr>public_key = PublicKey 10, private_key = PrivateKey 10\<rparr> NOT_VOTED VOTED False None
   = Inr ex_untimestamped_voter_tx"
  by code_simp

lemma add_transaction_cases:
  assumes "is_node_in_network hash_key self (public_key (node tx)) = Inr trusted"
      and "verify_transaction cc tx = Inr ok"
  shows "add_transaction hash_key cc self tx =
       (if trusted \<and> ok then
          (if timestamped tx then
             Inr (self\<lparr>verified_transactions := insert (tx_oid tx) (verified_transactions self)\<rparr>)
           else (case pending_transactions self of
                   None \<Rightarrow> Inl AttributeError
                 | Some p \<Rightarrow> Inr (self\<lparr>pending_transactions := Some (insert (tx_oid tx) p)\<rparr>)))
        else Inr (self\<lparr>rejected_transactions := insert (tx_oid tx) (rejected_transactions self)\<rparr>))"
  using assms by (simp add: add_transaction_def)

lemma add_transaction_verified:
  assumes "add_transaction hash_key cc self tx = Inr self'"
  shows "verified_transactions self' =
           (if verify_transaction cc tx = Inr True \<and> timestamped tx
               \<and> is_node_in_network hash_key self (public_key (node tx)) = Inr True
            then insert (tx_oid tx) (verified_transactions self)
            else verified_transactions self)"
    and "public_key self' = public_key self" and "private_key self' = private_key self"
    and "node_mapping self' = node_mapping self" and "node_class self' = node_class self"
  using assms
  by (auto simp: add_transaction_def split: sum.splits if_splits option.splits)

lemma deliver_verified:
  assumes "deliver hash_key cc tx ns net = (e, net')"
  shows "verified_transactions (net n) \<subseteq> verified_transactions (net' n)
         \<and> verified_transactions (net' n) \<subseteq> insert (tx_oid tx) (verified_transactions (net n))"
  using assms
proof (induction ns arbitrary: net)
  case Nil
  then show ?case by auto
next
  case (Cons m ns)
  show ?case
  proof (cases "add_transaction hash_key cc (net m) tx")
    case (Inl err)
    with Cons.prems show ?thesis by auto
  next
    case (Inr node')
    with Cons.prems have rest: "deliver hash_key cc tx ns (net(m := node')) = (e, net')"
      by simp
    note ih = Cons.IH [OF rest]
    from add_transaction_verified(1) [OF Inr]
    have step: "verified_transactions (net m) \<subseteq> verified_transactions node'"
      "verified_transactions node' \<subseteq> insert (tx_oid tx) (verified_transactions (net m))"
      by (auto split: if_splits)
    show ?thesis
    proof (cases "n = m")
      case True
      with ih step show ?thesis by auto
    next
      case False
      with ih show ?thesis by auto
    qed
  qed
qed

lemma VoterTransaction_init_voted:
  "VoterTransaction_init new_oid now (VoterObj voter) keys NOT_VOTED VOTED True None =
     Inr \<lparr>tx_oid = new_oid, content = voter, tx_kwargs = None,
          previous_state = NOT_VOTED, new_state = VOTED, node = keys,
          timestamped = True, time = Some now,
          signature = Some (sign_message keys
            (join '':'' [voter_id voter, NOT_VOTED, VOTED, get_formatted_time_str now]))\<rparr>"
  by (simp add: VoterTransaction_init_def Transaction_init_def as_Voter_def
      VoterTransaction_allowed_states_def Transaction_get_signature_contents_def
      get_time_str_def Voter_get_signature_contents_def Let_def)

lemma VoterComputer_create_transaction_verified:
  assumes keys: "public_key (net self) = PublicKey k" "private_key (net self) = PrivateKey k"
      and run: "VoterComputer_create_transaction hash_key new_oid now self voter net = (e, net', r)"
  shows "\<exists>tx. r = Some tx \<and> tx_oid tx = new_oid
           \<and> verify_transaction Voter_get_signature_contents tx = Inr True
           \<and> new_oid \<in> verified_transactions (net' self)
           \<and> (\<forall>n. verified_transactions (net' n) \<subseteq> insert new_oid (verified_transactions (net n)))"
proof -
  let ?keys = "node_keys.truncate (net self)"
  let ?tx = "\<lparr>tx_oid = new_oid, content = voter, tx_kwargs = None,
          previous_state = NOT_VOTED, new_state = VOTED, node = ?keys,
          timestamped = True, time = Some now,
          signature = Some (sign_message ?keys
            (join '':'' [voter_id voter, NOT_VOTED, VOTED, get_formatted_time_str now]))\<rparr>"
  let ?net1 = "net(self := (net self)\<lparr>verified_transactions :=
                                     insert (tx_oid ?tx) (verified_transactions (net self))\<rparr>)"
  have init: "VoterTransaction_init new_oid now (VoterObj voter) ?keys NOT_VOTED VOTED True None
                = Inr ?tx"
    by (rule VoterTransaction_init_voted)
  have verify: "verify_transaction Voter_get_signature_contents ?tx = Inr True"
    using keys
    by (simp add: verify_transaction_def Transaction_get_signature_contents_def get_time_str_def
        Voter_get_signature_contents_def sign_message_def node_keys.truncate_def Let_def)
  obtain e2 net2 where b: "VoterComputer_broadcast_transactions hash_key self [?tx] ?net1 = (e2, net2)"
    by (cases "VoterComputer_broadcast_transactions hash_key self [?tx] ?net1")
  from run init b have res: "e = e2" "net' = net2" "r = Some ?tx"
    by (simp_all add: VoterComputer_create_transaction_def Let_def)
  have grow: "verified_transactions (?net1 n) \<subseteq> verified_transactions (net2 n)
         \<and> verified_transactions (net2 n) \<subseteq> insert new_oid (verified_transactions (?net1 n))" for n
  proof (cases "node_mapping (?net1 self)")
    case None
    with b show ?thesis by auto
  next
    case (Some m)
    obtain e3 net3 where d: "deliver hash_key Voter_get_signature_contents ?tx (map snd m) ?net1 = (e3, net3)"
      by (cases "deliver hash_key Voter_get_signature_contents ?tx (map snd m) ?net1")
    from b Some d have "net2 = net3" by (cases e3) simp_all
    with deliver_verified [OF d, of n] show ?thesis by simp
  qed
  have "new_oid \<in> verified_transactions (net2 self)"
    using grow [of self] by auto
  moreover have "\<forall>n. verified_transactions (net2 n) \<subseteq> insert new_oid (verified_transactions (net n))"
  proof
    fix n
    from grow [of n] show "verified_transactions (net2 n) \<subseteq> insert new_oid (verified_transactions (net n))"
      by (cases "n = self") auto
  qed
  ultimately show ?thesis using res verify by simp
qed

text \<open>
  A run of \<^verbatim>\<open>VoterComputer.create_transaction\<close>: the first of two voter computers creates
  the transaction of a voter; it is returned, it is in the verified set of its creator
  and, after the broadcast, in the verified set of the other computer.
\<close>

lemma ex_created_verified:
  "fst ex_created = None
   \<and> snd (snd ex_created) = Some ex_voter_tx
   \<and> verified_transactions (fst (snd ex_created) 1) = {41}
   \<and> verified_transactions (fst (snd ex_created) 2) = {41}
   \<and> rejected_transactions (fst (snd ex_created) 2) = {}"
  by code_simp

text \<open>
  C7. Admission is meant to store every incoming transaction: rejected when the issuer
  is not trusted or the signature does not verify, pending when accepted and
  untimestamped, verified when accepted and timestamped. The code does not do so on
  every node. \<^verbatim>\<open>Node.__init__\<close> creates the verified and the rejected set only, and
  \<^verbatim>\<open>VotingComputer.__init__\<close> alone adds a pending set, while \<^verbatim>\<open>Node.add_transaction\<close>
  writes to \<^verbatim>\<open>self.pending_transactions\<close> on whatever node it runs. Of two voter
  computers that trust each other, the first receives from the second a transaction
  built by the constructor with \<^verbatim>\<open>timestamped=False\<close>: the issuer is trusted, the
  signature verifies, the node has no pending set, and admission raises
  \<^verbatim>\<open>AttributeError\<close>, so that the transaction is stored in none of the node's sets.
\<close>

theorem C7_untimestamped_on_voter_computer_raises:
  "ex_voter_node =
     set_node_mapping ex_hash (Node_init VoterComputer (PublicKey 9) (PrivateKey 9))
       [(9, 1), (10, 2)]
   \<and> VoterTransaction_init 43 ex_now (VoterObj ex_voter2)
       \<lparr>public_key = PublicKey 10, private_key = PrivateKey 10\<rparr> NOT_VOTED VOTED False None
     = Inr ex_untimestamped_voter_tx
   \<and> is_node_in_network ex_hash ex_voter_node (public_key (node ex_untimestamped_voter_tx)) = Inr True
   \<and> verify_transaction Voter_get_signature_contents ex_untimestamped_voter_tx = Inr True
   \<and> \<not> timestamped ex_untimestamped_voter_tx
   \<and> pending_transactions ex_voter_node = None
   \<and> add_transaction ex_hash Voter_get_signature_contents ex_voter_node ex_untimestamped_voter_tx
       = Inl AttributeError"
proof -
  have made: "ex_voter_node =
     set_node_mapping ex_hash (Node_init VoterComputer (PublicKey 9) (PrivateKey 9))
       [(9, 1), (10, 2)]"
    by (rule ex_voter_node_def)
  have run: "is_node_in_network ex_hash ex_voter_node (public_key (node ex_untimestamped_voter_tx))
      = Inr True"
    "verify_transaction Voter_get_signature_contents ex_untimestamped_voter_tx = Inr True"
    "\<not> timestamped ex_untimestamped_voter_tx"
    "pending_transactions ex_voter_node = None"
    "add_transaction ex_hash Voter_get_signature_contents ex_voter_node ex_untimestamped_voter_tx
       = Inl AttributeError"
    by code_simp+
  show ?thesis
    by (intro conjI made ex_untimestamped_voter_tx_constructed run)
qed

end
